theory Spec2Isabelle
  imports Main "HOL-Library.Word"
begin

unbundle bit_operations_syntax

section \<open>Machine types\<close>

text \<open>
  The C types of \<^verbatim>\<open>thread.c\<close>: \<^verbatim>\<open>int\<close> is a 32-bit word (read as two's complement
  with \<open>sint\<close>), \<^verbatim>\<open>uint64_t\<close> and \<^verbatim>\<open>uintptr_t\<close> are 64-bit words, a byte of an
  object representation is an 8-bit word. A pointer to an object that \<^verbatim>\<open>thread.c\<close>
  never looks into (\<^verbatim>\<open>Limits *\<close>, \<^verbatim>\<open>SearchInfo *\<close>, the value returned by an
  allocator) is its address; \<open>0\<close> is \<^verbatim>\<open>NULL\<close>.
\<close>

type_synonym cint = "32 word"
type_synonym addr = "64 word"
type_synonym byte = "8 word"

text \<open>
  A pointer to an element of one of the four frame arrays names the array and the
  element: \<^verbatim>\<open>&(threads[i]._evalStack[k])\<close> is \<open>Elem (EvalArr i) k\<close>, and an element
  of the heap array that starts at address \<open>p\<close> is \<open>Elem (NNUEArr p) k\<close>. The pointer
  all of whose bytes are zero (as \<^verbatim>\<open>calloc\<close> leaves it) is \<open>NullPtr\<close>.
\<close>

text \<open>
  Both files choose between two bodies at compile time (\<^verbatim>\<open>_WIN32\<close> defined or
  not). Both bodies are kept; a platform argument selects one.
\<close>

datatype platform = POSIX | WIN32

datatype arr = EvalArr nat | MoveArr nat | PieceArr nat | NNUEArr addr

datatype eptr = NullPtr | Elem arr int

section \<open>Constants and type sizes of the headers\<close>

text \<open>
  \<^verbatim>\<open>STACK_OFFSET\<close>, \<^verbatim>\<open>STACK_SIZE\<close> and the struct declarations live in headers
  (\<^verbatim>\<open>types.h\<close>, \<^verbatim>\<open>thread.h\<close>, the NNUE headers) that are not part of the sources at
  hand, so the functions below take them as a parameter: the two constants, the size
  of one \<^verbatim>\<open>NNUEStack\<close> element, the offset of \<^verbatim>\<open>accumulator.accumulation\<close> inside
  it, and the sizes of the objects that \<^verbatim>\<open>calloc\<close> zero-fills.
\<close>

record layout =
  STACK_OFFSET :: nat
  STACK_SIZE :: nat
  sizeof_NNUEStack :: nat
  offsetof_accumulation :: nat
  sizeof_Board :: nat
  sizeof_EvalTable :: nat
  sizeof_PKTable :: nat
  sizeof_KillerTable :: nat
  sizeof_CounterMoveTable :: nat
  sizeof_HistoryTable :: nat
  sizeof_CaptureHistoryTable :: nat
  sizeof_ContinuationTable :: nat

text \<open>
  Modelled from the spec: the colour constant \<^verbatim>\<open>BLACK\<close> of \<^verbatim>\<open>types.h\<close>, which is not
  under the sources. The spec calls White the first player and Black the second; the
  colours are numbered in that order.
\<close>

definition WHITE :: cint where
  "WHITE = 0"

definition BLACK :: cint where
  "BLACK = 1"

text \<open>
  Modelled from the spec: the score macros \<^verbatim>\<open>MakeScore\<close>, \<^verbatim>\<open>ScoreMG\<close> and
  \<^verbatim>\<open>ScoreEG\<close> of the evaluation headers, which are not under the sources. The spec
  says that the two components are ``packed into one score value'' whose sign is
  flipped as a whole. The packing is the engine's two half-words of one \<^verbatim>\<open>int\<close>:
  \<^verbatim>\<open>MakeScore(mg, eg) = (int)((unsigned int)(eg) << 16) + (mg)\<close>,
  \<^verbatim>\<open>ScoreMG(s) = (int16_t)(uint16_t)(unsigned)(s)\<close> and
  \<^verbatim>\<open>ScoreEG(s) = (int16_t)(uint16_t)((unsigned)((s) + 0x8000) >> 16)\<close>.
\<close>

definition MakeScore :: "cint \<Rightarrow> cint \<Rightarrow> cint" where
  "MakeScore mg eg = push_bit 16 eg + mg"

definition ScoreMG :: "cint \<Rightarrow> int" where
  "ScoreMG s = sint (ucast s :: 16 word)"

definition ScoreEG :: "cint \<Rightarrow> int" where
  "ScoreEG s = sint (ucast (drop_bit 16 (s + 0x8000)) :: 16 word)"

section \<open>The data of a worker\<close>

text \<open>
  Of \<^verbatim>\<open>Board\<close> the code reads \<^verbatim>\<open>turn\<close> and writes \<^verbatim>\<open>st\<close>; all its other bytes are
  copied as they are.
\<close>

record Board =
  turn :: cint
  st :: eptr
  board_bytes :: "byte list"

record Accumulator =
  accumulation :: "byte list"
  computedAccumulation :: cint

record NNUEStack =
  accumulator :: Accumulator

text \<open>
  The fields of \<^verbatim>\<open>struct Thread\<close> that \<^verbatim>\<open>thread.c\<close> touches. The member arrays
  \<^verbatim>\<open>_evalStack\<close>, \<^verbatim>\<open>_moveStack\<close> and \<^verbatim>\<open>_pieceStack\<close> and the pointer
  \<^verbatim>\<open>_nnueStack\<close> are written \<open>raw_evalStack\<close>, \<open>raw_moveStack\<close>, \<open>raw_pieceStack\<close>
  and \<open>raw_nnueStack\<close>. A table is its object representation, a list of
  \<^verbatim>\<open>sizeof\<close> bytes.
\<close>

record Thread =
  limits :: addr
  info :: addr
  board :: Board
  contempt :: cint
  height :: cint
  nodes :: "64 word"
  tbhits :: "64 word"
  evalStack :: eptr
  raw_evalStack :: "cint list"
  moveStack :: eptr
  raw_moveStack :: "16 word list"
  pieceStack :: eptr
  raw_pieceStack :: "cint list"
  nnueStack :: eptr
  raw_nnueStack :: addr
  evtable :: "byte list"
  pktable :: "byte list"
  killers :: "byte list"
  cmtable :: "byte list"
  history :: "byte list"
  chistory :: "byte list"
  continuation :: "byte list"
  index :: cint
  nthreads :: cint
  threads :: addr

text \<open>
  The memory the pool functions work on: the address and the elements of the array
  that \<^verbatim>\<open>Thread *threads\<close> points to, the heap arrays of \<^verbatim>\<open>NNUEStack\<close> by their
  start address, and the two global contempt options.
\<close>

record mem =
  threads_ptr :: addr
  workers :: "Thread list"
  nnue_heap :: "addr \<rightharpoonup> NNUEStack list"
  ContemptDrawPenalty :: cint
  ContemptComplexity :: cint

text \<open>
  What the C library answers: the pointer \<^verbatim>\<open>calloc\<close> returns, and for the
  allocation made for worker \<open>i\<close> the return code of \<^verbatim>\<open>posix_memalign\<close> with the
  pointer it stores, the pointer \<^verbatim>\<open>_mm_malloc\<close> returns (Windows), and the
  indeterminate contents of the fresh block, frame by frame.
\<close>

record libc =
  calloc_ret :: addr
  posix_memalign_ret :: "nat \<Rightarrow> cint \<times> addr"
  mm_malloc_ret :: "nat \<Rightarrow> addr"
  fresh_frame :: "nat \<Rightarrow> nat \<Rightarrow> NNUEStack"

text \<open>
  The two ways a run ends without returning: \<^verbatim>\<open>exit(EXIT_FAILURE)\<close>, and an access
  outside every object (a null or dangling pointer, an index past the end).
\<close>

datatype fault = ExitFailure | InvalidAccess

section \<open>createThreadPool\<close>

definition zero_bytes :: "nat \<Rightarrow> byte list" where
  "zero_bytes n = replicate n 0"

text \<open>One element of \<^verbatim>\<open>calloc(nthreads, sizeof(Thread))\<close>: every byte is zero.\<close>

definition calloc_Thread :: "layout \<Rightarrow> Thread" where
  "calloc_Thread L =
     \<lparr> limits = 0, info = 0,
       board = \<lparr> turn = 0, st = NullPtr, board_bytes = zero_bytes (sizeof_Board L) \<rparr>,
       contempt = 0, height = 0, nodes = 0, tbhits = 0,
       evalStack = NullPtr, raw_evalStack = replicate (STACK_SIZE L) 0,
       moveStack = NullPtr, raw_moveStack = replicate (STACK_SIZE L) 0,
       pieceStack = NullPtr, raw_pieceStack = replicate (STACK_SIZE L) 0,
       nnueStack = NullPtr, raw_nnueStack = 0,
       evtable = zero_bytes (sizeof_EvalTable L),
       pktable = zero_bytes (sizeof_PKTable L),
       killers = zero_bytes (sizeof_KillerTable L),
       cmtable = zero_bytes (sizeof_CounterMoveTable L),
       history = zero_bytes (sizeof_HistoryTable L),
       chistory = zero_bytes (sizeof_CaptureHistoryTable L),
       continuation = zero_bytes (sizeof_ContinuationTable L),
       index = 0, nthreads = 0, threads = 0 \<rparr>"

text \<open>
  \<^verbatim>\<open>ethereal_alloc\<close>, lines 35 to 42: \<^verbatim>\<open>return _mm_malloc(size, alignment);\<close> on
  Windows and \<^verbatim>\<open>return posix_memalign(&mem, alignment, size) ? NULL : mem;\<close>
  elsewhere. A successful call also makes the block exist; the call made for worker
  \<open>i\<close> asks for \<^verbatim>\<open>sizeof(NNUEStack) * STACK_SIZE\<close> bytes, that is \<^verbatim>\<open>STACK_SIZE\<close>
  frames.
\<close>

definition ethereal_alloc ::
  "layout \<Rightarrow> platform \<Rightarrow> libc \<Rightarrow> nat \<Rightarrow> (addr \<rightharpoonup> NNUEStack list) \<Rightarrow>
     addr \<times> (addr \<rightharpoonup> NNUEStack list)" where
  "ethereal_alloc L pf env i h =
     (case pf of
        WIN32 \<Rightarrow>
          (let p = mm_malloc_ret env i
           in if p = 0 then (0, h)
              else (p, h(p \<mapsto> map (fresh_frame env i) [0..<STACK_SIZE L])))
      | POSIX \<Rightarrow>
          (case posix_memalign_ret env i of (rc, p) \<Rightarrow>
             if rc \<noteq> 0 then (0, h)
             else (p, h(p \<mapsto> map (fresh_frame env i) [0..<STACK_SIZE L]))))"

text \<open>
  The address of \<^verbatim>\<open>_nnueStack[j].accumulator.accumulation\<close> for the array at \<open>p\<close>,
  as the \<^verbatim>\<open>uintptr_t\<close> the check converts it to.
\<close>

definition accumulation_addr :: "layout \<Rightarrow> addr \<Rightarrow> nat \<Rightarrow> addr" where
  "accumulation_addr L p j =
     p + of_nat j * of_nat (sizeof_NNUEStack L) + of_nat (offsetof_accumulation L)"

text \<open>
  The inner loop of lines 74 to 80, from \<open>j\<close> on: the first frame whose buffer is not
  on a 64-byte boundary ends the process.
\<close>

function check_aligned :: "layout \<Rightarrow> addr \<Rightarrow> nat \<Rightarrow> fault + unit" where
  "check_aligned L p j =
     (if j < STACK_SIZE L then
        (if accumulation_addr L p j mod 64 \<noteq> 0 then Inl ExitFailure
         else check_aligned L p (Suc j))
      else Inr ())"
  by pat_completeness auto
termination
  by (relation "measure (\<lambda>(L, p, j). STACK_SIZE L - j)") auto

text \<open>The body of the outer loop, lines 59 to 80, for worker \<open>i\<close>.\<close>

definition create_body :: "layout \<Rightarrow> platform \<Rightarrow> libc \<Rightarrow> cint \<Rightarrow> nat \<Rightarrow> mem \<Rightarrow> fault + mem" where
  "create_body L pf env n i m =
     (if i < length (workers m) then
        (let t0 = workers m ! i;
             t1 = t0 \<lparr> evalStack := Elem (EvalArr i) (int (STACK_OFFSET L)),
                      moveStack := Elem (MoveArr i) (int (STACK_OFFSET L)),
                      pieceStack := Elem (PieceArr i) (int (STACK_OFFSET L)),
                      nnueStack := Elem (NNUEArr (raw_nnueStack t0)) (int (STACK_OFFSET L)) \<rparr>;
             t2 = t1 \<lparr> index := of_nat i, threads := threads_ptr m, nthreads := n \<rparr>;
             (p, h) = ethereal_alloc L pf env i (nnue_heap m);
             t3 = t2 \<lparr> raw_nnueStack := p \<rparr>;
             t4 = t3 \<lparr> nnueStack := Elem (NNUEArr (raw_nnueStack t3)) (int (STACK_OFFSET L)) \<rparr>
         in case check_aligned L (raw_nnueStack t4) 0 of
              Inl e \<Rightarrow> Inl e
            | Inr _ \<Rightarrow> Inr (m \<lparr> workers := (workers m)[i := t4], nnue_heap := h \<rparr>))
      else Inl InvalidAccess)"

function create_loop :: "layout \<Rightarrow> platform \<Rightarrow> libc \<Rightarrow> cint \<Rightarrow> nat \<Rightarrow> mem \<Rightarrow> fault + mem" where
  "create_loop L pf env n i m =
     (if int i < sint n then
        (case create_body L pf env n i m of
           Inl e \<Rightarrow> Inl e
         | Inr m' \<Rightarrow> create_loop L pf env n (Suc i) m')
      else Inr m)"
  by pat_completeness auto
termination
  by (relation "measure (\<lambda>(L, pf, env, n, i, m). nat (sint n) - i)") auto

text \<open>
  \<^verbatim>\<open>createThreadPool(nthreads)\<close>, called with the heap \<open>h\<close> and the two options as
  they are at the call. When \<^verbatim>\<open>calloc\<close> returns \<^verbatim>\<open>NULL\<close> there is no array, and the
  first access of the loop is invalid.
\<close>

definition createThreadPool ::
  "layout \<Rightarrow> platform \<Rightarrow> libc \<Rightarrow> (addr \<rightharpoonup> NNUEStack list) \<Rightarrow> cint \<Rightarrow> cint \<Rightarrow> cint \<Rightarrow> fault + mem" where
  "createThreadPool L pf env h cdp cc n =
     create_loop L pf env n 0
       \<lparr> threads_ptr = calloc_ret env,
         workers = (if calloc_ret env = 0 then []
                    else replicate (nat (sint n)) (calloc_Thread L)),
         nnue_heap = h,
         ContemptDrawPenalty = cdp,
         ContemptComplexity = cc \<rparr>"

section \<open>Reading the worker count\<close>

text \<open>
  \<^verbatim>\<open>threads->nthreads\<close>, the bound that the loops of the other functions read from
  the first element before every iteration.
\<close>

definition pool_nthreads :: "mem \<Rightarrow> fault + cint" where
  "pool_nthreads m = (case workers m of [] \<Rightarrow> Inl InvalidAccess | t # _ \<Rightarrow> Inr (nthreads t))"

section \<open>resetThreadPool\<close>

text \<open>\<^verbatim>\<open>memset(&obj, 0, sizeof(obj))\<close>: every byte of the object becomes zero.\<close>

definition memset0 :: "byte list \<Rightarrow> byte list" where
  "memset0 obj = replicate (length obj) 0"

text \<open>The body of the loop, lines 94 to 102, for worker \<open>i\<close>.\<close>

definition reset_body :: "nat \<Rightarrow> mem \<Rightarrow> fault + mem" where
  "reset_body i m =
     (if i < length (workers m) then
        (let t = workers m ! i;
             t = t \<lparr> evtable := memset0 (evtable t) \<rparr>;
             t = t \<lparr> pktable := memset0 (pktable t) \<rparr>;
             t = t \<lparr> killers := memset0 (killers t) \<rparr>;
             t = t \<lparr> cmtable := memset0 (cmtable t) \<rparr>;
             t = t \<lparr> history := memset0 (history t) \<rparr>;
             t = t \<lparr> chistory := memset0 (chistory t) \<rparr>;
             t = t \<lparr> continuation := memset0 (continuation t) \<rparr>
         in Inr (m \<lparr> workers := (workers m)[i := t] \<rparr>))
      else Inl InvalidAccess)"

function reset_loop :: "nat \<Rightarrow> mem \<Rightarrow> fault + mem" where
  "reset_loop i m =
     (case pool_nthreads m of
        Inl e \<Rightarrow> Inl e
      | Inr n \<Rightarrow>
          if int i < sint n then
            (case reset_body i m of
               Inl e \<Rightarrow> Inl e
             | Inr m' \<Rightarrow> reset_loop (Suc i) m')
          else Inr m)"
  by pat_completeness auto
termination
proof (relation "measure (\<lambda>(i, m). 2 ^ 31 - i)")
  show "wf (measure (\<lambda>(i, m). 2 ^ 31 - i))"
    by simp
next
  fix i :: nat and m :: mem and n :: cint and m' :: mem
  assume "int i < sint n"
  moreover have "sint n < 2 ^ 31"
    using sint_lt [of n] by simp
  ultimately have "int i < 2 ^ 31"
    by linarith
  then have "i < 2 ^ 31"
    by simp
  then show "((Suc i, m'), (i, m)) \<in> measure (\<lambda>(i, m). 2 ^ 31 - i)"
    by simp
qed

definition resetThreadPool :: "mem \<Rightarrow> fault + mem" where
  "resetThreadPool m = reset_loop 0 m"

section \<open>newSearchThreadPool\<close>

text \<open>
  The inner loop of lines 138 and 139, from \<open>j\<close> on: it writes through the pointer
  \<^verbatim>\<open>_nnueStack\<close>, so the array must exist and have a frame \<open>j\<close>.
\<close>

function clear_computed ::
  "layout \<Rightarrow> addr \<Rightarrow> nat \<Rightarrow> (addr \<rightharpoonup> NNUEStack list) \<Rightarrow> fault + (addr \<rightharpoonup> NNUEStack list)" where
  "clear_computed L p j h =
     (if j < STACK_SIZE L then
        (case h p of
           None \<Rightarrow> Inl InvalidAccess
         | Some fr \<Rightarrow>
             if j < length fr then
               clear_computed L p (Suc j)
                 (h(p \<mapsto> fr[j := (fr ! j) \<lparr> accumulator :=
                                  (accumulator (fr ! j)) \<lparr> computedAccumulation := 0 \<rparr> \<rparr>]))
             else Inl InvalidAccess)
      else Inr h)"
  by pat_completeness auto
termination
  by (relation "measure (\<lambda>(L, p, j, h). STACK_SIZE L - j)") auto

text \<open>Lines 122 and 123.\<close>

definition search_contempt :: "cint \<Rightarrow> cint \<Rightarrow> Board \<Rightarrow> cint" where
  "search_contempt cdp cc b =
     (let c = MakeScore (cdp + cc) cdp
      in if turn b = BLACK then - c else c)"

text \<open>The body of the loop, lines 127 to 139, for worker \<open>i\<close>.\<close>

definition newSearch_body ::
  "layout \<Rightarrow> Board \<Rightarrow> addr \<Rightarrow> addr \<Rightarrow> cint \<Rightarrow> nat \<Rightarrow> mem \<Rightarrow> fault + mem" where
  "newSearch_body L b lim nfo c i m =
     (if i < length (workers m) then
        (let t = workers m ! i;
             t = t \<lparr> limits := lim, info := nfo, contempt := c \<rparr>;
             t = t \<lparr> height := 0, nodes := 0, tbhits := 0 \<rparr>;
             t = t \<lparr> board := b \<rparr>;
             t = t \<lparr> board := (board t) \<lparr> st := nnueStack t \<rparr> \<rparr>
         in case clear_computed L (raw_nnueStack t) 0 (nnue_heap m) of
              Inl e \<Rightarrow> Inl e
            | Inr h \<Rightarrow> Inr (m \<lparr> workers := (workers m)[i := t], nnue_heap := h \<rparr>))
      else Inl InvalidAccess)"

function newSearch_loop ::
  "layout \<Rightarrow> Board \<Rightarrow> addr \<Rightarrow> addr \<Rightarrow> cint \<Rightarrow> nat \<Rightarrow> mem \<Rightarrow> fault + mem" where
  "newSearch_loop L b lim nfo c i m =
     (case pool_nthreads m of
        Inl e \<Rightarrow> Inl e
      | Inr n \<Rightarrow>
          if int i < sint n then
            (case newSearch_body L b lim nfo c i m of
               Inl e \<Rightarrow> Inl e
             | Inr m' \<Rightarrow> newSearch_loop L b lim nfo c (Suc i) m')
          else Inr m)"
  by pat_completeness auto
termination
proof (relation "measure (\<lambda>(L, b, lim, nfo, c, i, m). 2 ^ 31 - i)")
  show "wf (measure (\<lambda>(L :: layout, b :: Board, lim :: addr, nfo :: addr, c :: cint, i, m :: mem). 2 ^ 31 - i))"
    by simp
next
  fix L :: layout and b :: Board and lim nfo :: addr and c :: cint
    and i :: nat and m :: mem and n :: cint and m' :: mem
  assume "int i < sint n"
  moreover have "sint n < 2 ^ 31"
    using sint_lt [of n] by simp
  ultimately have "int i < 2 ^ 31"
    by linarith
  then have "i < 2 ^ 31"
    by simp
  then show "((L, b, lim, nfo, c, Suc i, m'), (L, b, lim, nfo, c, i, m))
      \<in> measure (\<lambda>(L, b, lim, nfo, c, i, m). 2 ^ 31 - i)"
    by simp
qed

definition newSearchThreadPool :: "layout \<Rightarrow> Board \<Rightarrow> addr \<Rightarrow> addr \<Rightarrow> mem \<Rightarrow> fault + mem" where
  "newSearchThreadPool L b lim nfo m =
     newSearch_loop L b lim nfo
       (search_contempt (ContemptDrawPenalty m) (ContemptComplexity m) b) 0 m"

section \<open>nodesSearchedThreadPool and tbhitsThreadPool\<close>

function nodes_loop :: "nat \<Rightarrow> 64 word \<Rightarrow> mem \<Rightarrow> fault + 64 word" where
  "nodes_loop i acc m =
     (case pool_nthreads m of
        Inl e \<Rightarrow> Inl e
      | Inr n \<Rightarrow>
          if int i < sint n then
            (if i < length (workers m)
             then nodes_loop (Suc i) (acc + nodes (workers m ! i)) m
             else Inl InvalidAccess)
          else Inr acc)"
  by pat_completeness auto
termination
proof (relation "measure (\<lambda>(i, acc, m). 2 ^ 31 - i)")
  show "wf (measure (\<lambda>(i, acc :: 64 word, m :: mem). 2 ^ 31 - i))"
    by simp
next
  fix i :: nat and acc :: "64 word" and m :: mem and n :: cint
  assume "int i < sint n"
  moreover have "sint n < 2 ^ 31"
    using sint_lt [of n] by simp
  ultimately have "int i < 2 ^ 31"
    by linarith
  then have "i < 2 ^ 31"
    by simp
  then show "((Suc i, acc + nodes (workers m ! i), m), (i, acc, m))
      \<in> measure (\<lambda>(i, acc, m). 2 ^ 31 - i)"
    by simp
qed

definition nodesSearchedThreadPool :: "mem \<Rightarrow> fault + 64 word" where
  "nodesSearchedThreadPool m = nodes_loop 0 0 m"

function tbhits_loop :: "nat \<Rightarrow> 64 word \<Rightarrow> mem \<Rightarrow> fault + 64 word" where
  "tbhits_loop i acc m =
     (case pool_nthreads m of
        Inl e \<Rightarrow> Inl e
      | Inr n \<Rightarrow>
          if int i < sint n then
            (if i < length (workers m)
             then tbhits_loop (Suc i) (acc + tbhits (workers m ! i)) m
             else Inl InvalidAccess)
          else Inr acc)"
  by pat_completeness auto
termination
proof (relation "measure (\<lambda>(i, acc, m). 2 ^ 31 - i)")
  show "wf (measure (\<lambda>(i, acc :: 64 word, m :: mem). 2 ^ 31 - i))"
    by simp
next
  fix i :: nat and acc :: "64 word" and m :: mem and n :: cint
  assume "int i < sint n"
  moreover have "sint n < 2 ^ 31"
    using sint_lt [of n] by simp
  ultimately have "int i < 2 ^ 31"
    by linarith
  then have "i < 2 ^ 31"
    by simp
  then show "((Suc i, acc + tbhits (workers m ! i), m), (i, acc, m))
      \<in> measure (\<lambda>(i, acc, m). 2 ^ 31 - i)"
    by simp
qed

definition tbhitsThreadPool :: "mem \<Rightarrow> fault + 64 word" where
  "tbhitsThreadPool m = tbhits_loop 0 0 m"

section \<open>Reading the memory\<close>

text \<open>
  Pointer arithmetic on an element pointer, \<^verbatim>\<open>p + k\<close>, so that \<^verbatim>\<open>p[k]\<close> is the
  element \<open>ptr_add p k\<close> points to.
\<close>

fun ptr_add :: "eptr \<Rightarrow> int \<Rightarrow> eptr" where
  "ptr_add NullPtr k = NullPtr"
| "ptr_add (Elem a i) k = Elem a (i + k)"

text \<open>The number of elements of the array a pointer points into, if the array exists.\<close>

fun arr_length :: "mem \<Rightarrow> arr \<Rightarrow> nat option" where
  "arr_length m (EvalArr i) =
     (if i < length (workers m) then Some (length (raw_evalStack (workers m ! i))) else None)"
| "arr_length m (MoveArr i) =
     (if i < length (workers m) then Some (length (raw_moveStack (workers m ! i))) else None)"
| "arr_length m (PieceArr i) =
     (if i < length (workers m) then Some (length (raw_pieceStack (workers m ! i))) else None)"
| "arr_length m (NNUEArr p) = map_option length (nnue_heap m p)"

text \<open>A pointer can be read through when it points to an element of an existing array.\<close>

fun valid_elem :: "mem \<Rightarrow> eptr \<Rightarrow> bool" where
  "valid_elem m NullPtr = False"
| "valid_elem m (Elem a i) =
     (case arr_length m a of None \<Rightarrow> False | Some n \<Rightarrow> 0 \<le> i \<and> i < int n)"

text \<open>Frame \<open>j\<close> of the heap array at \<open>p\<close> exists and its \<^verbatim>\<open>computedAccumulation\<close> is 0.\<close>

definition flag_clear :: "(addr \<rightharpoonup> NNUEStack list) \<Rightarrow> addr \<Rightarrow> nat \<Rightarrow> bool" where
  "flag_clear h p j =
     (case h p of
        None \<Rightarrow> False
      | Some fr \<Rightarrow> j < length fr \<and> computedAccumulation (accumulator (fr ! j)) = 0)"

text \<open>
  A pool as \<^verbatim>\<open>createThreadPool\<close> leaves it: the count stored in the first worker is
  the number of workers, and every worker's \<^verbatim>\<open>_nnueStack\<close> points to an array of
  \<^verbatim>\<open>STACK_SIZE\<close> frames.
\<close>

definition pool_ok :: "layout \<Rightarrow> mem \<Rightarrow> bool" where
  "pool_ok L m \<longleftrightarrow>
     (case workers m of
        [] \<Rightarrow> False
      | t # _ \<Rightarrow> sint (nthreads t) = int (length (workers m))) \<and>
     list_all (\<lambda>t. map_option length (nnue_heap m (raw_nnueStack t)) = Some (STACK_SIZE L))
       (workers m)"

text \<open>The pointer \<^verbatim>\<open>ethereal_alloc\<close> returns to the iteration for worker \<open>i\<close>.\<close>

definition alloc_result :: "platform \<Rightarrow> libc \<Rightarrow> nat \<Rightarrow> addr" where
  "alloc_result pf env i =
     (case pf of
        WIN32 \<Rightarrow> mm_malloc_ret env i
      | POSIX \<Rightarrow> (case posix_memalign_ret env i of (rc, p) \<Rightarrow> if rc \<noteq> 0 then 0 else p))"

text \<open>What one iteration of \<^verbatim>\<open>createThreadPool\<close> makes of worker \<open>i\<close>.\<close>

definition created_worker :: "layout \<Rightarrow> platform \<Rightarrow> libc \<Rightarrow> cint \<Rightarrow> addr \<Rightarrow> nat \<Rightarrow> Thread \<Rightarrow> Thread" where
  "created_worker L pf env n tp i t =
     t \<lparr> evalStack := Elem (EvalArr i) (int (STACK_OFFSET L)),
         moveStack := Elem (MoveArr i) (int (STACK_OFFSET L)),
         pieceStack := Elem (PieceArr i) (int (STACK_OFFSET L)),
         index := of_nat i, threads := tp, nthreads := n,
         raw_nnueStack := alloc_result pf env i,
         nnueStack := Elem (NNUEArr (alloc_result pf env i)) (int (STACK_OFFSET L)) \<rparr>"

text \<open>What one iteration of \<^verbatim>\<open>newSearchThreadPool\<close> makes of a worker.\<close>

definition newSearch_worker :: "Board \<Rightarrow> addr \<Rightarrow> addr \<Rightarrow> cint \<Rightarrow> Thread \<Rightarrow> Thread" where
  "newSearch_worker b lim nfo c t =
     t \<lparr> limits := lim, info := nfo, contempt := c, height := 0, nodes := 0, tbhits := 0,
         board := b \<lparr> st := nnueStack t \<rparr> \<rparr>"

text \<open>What one iteration of \<^verbatim>\<open>resetThreadPool\<close> makes of a worker.\<close>

definition reset_worker :: "Thread \<Rightarrow> Thread" where
  "reset_worker t =
     t \<lparr> evtable := memset0 (evtable t), pktable := memset0 (pktable t),
         killers := memset0 (killers t), cmtable := memset0 (cmtable t),
         history := memset0 (history t), chistory := memset0 (chistory t),
         continuation := memset0 (continuation t) \<rparr>"

text \<open>The seven tables of a worker, in the order of the struct.\<close>

definition tables :: "Thread \<Rightarrow> byte list list" where
  "tables t = [evtable t, pktable t, killers t, cmtable t, history t, chistory t, continuation t]"

definition all_zero :: "byte list \<Rightarrow> bool" where
  "all_zero bs = list_all (\<lambda>x. x = 0) bs"

section \<open>The mapped file reader of misc.c\<close>

text \<open>
  \<^verbatim>\<open>misc.c\<close> is compiled in one of two ways, chosen by \<^verbatim>\<open>#ifndef _WIN32\<close>; the
  platform argument selects the branch. The typedefs \<^verbatim>\<open>FD\<close> and
  \<^verbatim>\<open>map_t\<close> are in \<^verbatim>\<open>misc.h\<close>, which is not under the sources: the code uses
  \<^verbatim>\<open>FD\<close> as a file descriptor or a file handle, and \<^verbatim>\<open>map_t\<close> as a \<^verbatim>\<open>size_t\<close>
  (it receives \<^verbatim>\<open>file_size(fd)\<close> and is the length given to \<^verbatim>\<open>munmap\<close>) or as a
  handle (it receives the result of \<^verbatim>\<open>CreateFileMapping\<close> and is given to
  \<^verbatim>\<open>CloseHandle\<close>). Both are 64-bit words here.
\<close>

type_synonym FD = "64 word"
type_synonym map_t = "64 word"

text \<open>
  The part of the operating system the reader talks to: the open files with their
  bytes, the mapped regions (each a start address with the bytes that can be read
  from there on, the newest first), the open file-mapping handles (Windows) with the
  file each one maps, and the size of a page.
\<close>

record os =
  files :: "FD \<rightharpoonup> byte list"
  regions :: "(addr \<times> byte list) list"
  handles :: "addr \<rightharpoonup> FD"
  page_size :: nat

text \<open>The bytes that can be read from address \<open>a\<close> on, when a region starts there.\<close>

definition views :: "os \<Rightarrow> addr \<rightharpoonup> byte list" where
  "views s = map_of (regions s)"

text \<open>
  What the operating system decides on its own: where it places a mapping or a view
  (\<open>None\<close> when it refuses: no address space, no permission), which handle it
  gives a file mapping, and what an unset \<^verbatim>\<open>statbuf\<close> or \<^verbatim>\<open>sizeHigh\<close> holds when
  the size query fails.
\<close>

record kernel =
  mmap_place :: "addr option"
  mapping_handle :: "addr option"
  view_place :: "addr option"
  stat_garbage :: "64 word"
  sizeHigh_garbage :: "32 word"

text \<open>\<^verbatim>\<open>MAP_FAILED\<close> of \<^verbatim>\<open>sys/mman.h\<close> is \<^verbatim>\<open>(void *) -1\<close>.\<close>

definition MAP_FAILED :: addr where
  "MAP_FAILED = - 1"

text \<open>
  The system calls, as their manuals describe them. \<^verbatim>\<open>fstat\<close> stores the size of
  the file of an open descriptor and leaves \<^verbatim>\<open>statbuf\<close> alone otherwise.
  \<^verbatim>\<open>mmap(NULL, len, PROT_READ, MAP_SHARED, fd, 0)\<close> fails for a bad descriptor, for
  length 0 and when the system refuses; a mapping is never placed at address 0 or at
  \<^verbatim>\<open>MAP_FAILED\<close>. \<^verbatim>\<open>madvise\<close> only gives a hint and changes nothing here.
\<close>

definition fstat_size :: "kernel \<Rightarrow> os \<Rightarrow> FD \<Rightarrow> 64 word" where
  "fstat_size k s fd = (case files s fd of None \<Rightarrow> stat_garbage k | Some bs \<Rightarrow> of_nat (length bs))"

definition mmap :: "kernel \<Rightarrow> os \<Rightarrow> 64 word \<Rightarrow> FD \<Rightarrow> addr \<times> os" where
  "mmap k s len fd =
     (case files s fd of
        None \<Rightarrow> (MAP_FAILED, s)
      | Some bs \<Rightarrow>
          if len = 0 then (MAP_FAILED, s)
          else (case mmap_place k of
                  None \<Rightarrow> (MAP_FAILED, s)
                | Some a \<Rightarrow>
                    if a = 0 \<or> a = MAP_FAILED then (MAP_FAILED, s)
                    else (a, s \<lparr> regions := (a, take (unat len) bs) # regions s \<rparr>)))"




text \<open>
  \<^verbatim>\<open>GetFileSize\<close> returns the low half of the size and stores the high half; for a
  bad handle it returns \<^verbatim>\<open>INVALID_FILE_SIZE\<close>. \<^verbatim>\<open>CreateFileMapping\<close> with the
  size of the file fails for a bad handle, for an empty file and when the system
  refuses, and returns \<^verbatim>\<open>NULL\<close> then. \<^verbatim>\<open>MapViewOfFile(h, FILE_MAP_READ, 0, 0, 0)\<close>
  maps the whole file of the mapping \<open>h\<close>, or returns \<^verbatim>\<open>NULL\<close>.
  \<^verbatim>\<open>UnmapViewOfFile\<close> removes the view that starts at the address, and fails,
  changing nothing, when no view starts there. \<^verbatim>\<open>CloseHandle\<close> closes the handle.
\<close>

definition GetFileSize :: "kernel \<Rightarrow> os \<Rightarrow> FD \<Rightarrow> 32 word \<times> 32 word" where
  "GetFileSize k s fd =
     (case files s fd of
        None \<Rightarrow> (0xFFFFFFFF, sizeHigh_garbage k)
      | Some bs \<Rightarrow> (of_nat (length bs), of_nat (length bs div 2 ^ 32)))"

definition CreateFileMapping :: "kernel \<Rightarrow> os \<Rightarrow> FD \<Rightarrow> 32 word \<Rightarrow> 32 word \<Rightarrow> addr \<times> os" where
  "CreateFileMapping k s fd sizeHigh sizeLow =
     (case files s fd of
        None \<Rightarrow> (0, s)
      | Some bs \<Rightarrow>
          if bs = [] then (0, s)
          else (case mapping_handle k of
                  None \<Rightarrow> (0, s)
                | Some h \<Rightarrow> if h = 0 then (0, s) else (h, s \<lparr> handles := (handles s)(h \<mapsto> fd) \<rparr>)))"

definition MapViewOfFile :: "kernel \<Rightarrow> os \<Rightarrow> addr \<Rightarrow> addr \<times> os" where
  "MapViewOfFile k s h =
     (case handles s h of
        None \<Rightarrow> (0, s)
      | Some fd \<Rightarrow>
          (case files s fd of
             None \<Rightarrow> (0, s)
           | Some bs \<Rightarrow>
               (case view_place k of
                  None \<Rightarrow> (0, s)
                | Some a \<Rightarrow>
                    if a = 0 then (0, s) else (a, s \<lparr> regions := (a, bs) # regions s \<rparr>))))"



text \<open>\<^verbatim>\<open>file_size\<close>, lines 94 to 105.\<close>

definition file_size :: "platform \<Rightarrow> kernel \<Rightarrow> os \<Rightarrow> FD \<Rightarrow> 64 word" where
  "file_size pf k s fd =
     (case pf of
        POSIX \<Rightarrow> fstat_size k s fd
      | WIN32 \<Rightarrow>
          (case GetFileSize k s fd of (sizeLow, sizeHigh) \<Rightarrow>
             push_bit 32 (ucast sizeHigh) OR ucast sizeLow))"

text \<open>
  \<^verbatim>\<open>map_file\<close>, lines 55 to 76: the pointer returned, the value stored in \<^verbatim>\<open>*map\<close>,
  and the operating system afterwards.
\<close>

definition map_file :: "platform \<Rightarrow> kernel \<Rightarrow> os \<Rightarrow> FD \<Rightarrow> addr \<times> map_t \<times> os" where
  "map_file pf k s fd =
     (case pf of
        POSIX \<Rightarrow>
          (let m = file_size POSIX k s fd;
               (data, s') = mmap k s m fd
           in (if data = MAP_FAILED then 0 else data, m, s'))
      | WIN32 \<Rightarrow>
          (case GetFileSize k s fd of (sizeLow, sizeHigh) \<Rightarrow>
             (case CreateFileMapping k s fd sizeHigh sizeLow of (m, s') \<Rightarrow>
                if m = 0 then (0, m, s')
                else (case MapViewOfFile k s' m of (data, s'') \<Rightarrow> (data, m, s'')))))"


text \<open>
  The mapping of a file with bytes \<open>bs\<close> can be established: the file is not empty
  and the operating system grants what the platform's calls ask for.
\<close>


definition can_map :: "platform \<Rightarrow> kernel \<Rightarrow> byte list \<Rightarrow> bool" where
  "can_map pf k bs \<longleftrightarrow>
     bs \<noteq> [] \<and>
     (case pf of
        POSIX \<Rightarrow>
          (case mmap_place k of None \<Rightarrow> False | Some a \<Rightarrow> a \<noteq> 0 \<and> a \<noteq> MAP_FAILED)
      | WIN32 \<Rightarrow>
          (case mapping_handle k of None \<Rightarrow> False | Some h \<Rightarrow> h \<noteq> 0) \<and>
          (case view_place k of None \<Rightarrow> False | Some a \<Rightarrow> a \<noteq> 0))"

section \<open>A small configuration\<close>

text \<open>
  Concrete values on which the functions are run below: two frames per stack with
  one padding slot, frames of 64 bytes, a C library whose blocks are 64-byte aligned
  and one whose blocks are not, and an operating system with one open file of three
  bytes.
\<close>

definition small_layout :: layout where
  "small_layout =
     \<lparr> STACK_OFFSET = 1, STACK_SIZE = 2, sizeof_NNUEStack = 64, offsetof_accumulation = 0,
       sizeof_Board = 1, sizeof_EvalTable = 1, sizeof_PKTable = 1, sizeof_KillerTable = 1,
       sizeof_CounterMoveTable = 1, sizeof_HistoryTable = 1, sizeof_CaptureHistoryTable = 1,
       sizeof_ContinuationTable = 1 \<rparr>"

definition stale_frame :: NNUEStack where
  "stale_frame = \<lparr> accumulator = \<lparr> accumulation = [7], computedAccumulation = 1 \<rparr> \<rparr>"

definition aligned_libc :: libc where
  "aligned_libc =
     \<lparr> calloc_ret = 0x1000,
       posix_memalign_ret = (\<lambda>i. (0, if i = 0 then 0x2000 else 0x3000)),
       mm_malloc_ret = (\<lambda>i. if i = 0 then 0x2000 else 0x3000),
       fresh_frame = (\<lambda>i j. stale_frame) \<rparr>"

definition misaligned_libc :: libc where
  "misaligned_libc =
     \<lparr> calloc_ret = 0x1000,
       posix_memalign_ret = (\<lambda>i. (0, if i = 0 then 0x2000 else 0x3008)),
       mm_malloc_ret = (\<lambda>i. if i = 0 then 0x2000 else 0x3008),
       fresh_frame = (\<lambda>i j. stale_frame) \<rparr>"

definition no_heap :: "addr \<rightharpoonup> NNUEStack list" where
  "no_heap = Map.empty"

definition used_worker :: "cint \<Rightarrow> 64 word \<Rightarrow> 64 word \<Rightarrow> addr \<Rightarrow> Thread" where
  "used_worker n nd tb p =
     (calloc_Thread small_layout)
       \<lparr> height := 9, nodes := nd, tbhits := tb, raw_nnueStack := p,
         nnueStack := Elem (NNUEArr p) 1, killers := [5], history := [6], nthreads := n \<rparr>"

definition used_pool :: mem where
  "used_pool =
     \<lparr> threads_ptr = 0x1000,
       workers = [used_worker 2 10 4 0x2000, used_worker 2 7 1 0x3000],
       nnue_heap = no_heap(0x2000 \<mapsto> [stale_frame, stale_frame],
                           0x3000 \<mapsto> [stale_frame, stale_frame]),
       ContemptDrawPenalty = 20,
       ContemptComplexity = 5 \<rparr>"

definition white_board :: Board where
  "white_board = \<lparr> turn = WHITE, st = NullPtr, board_bytes = [3] \<rparr>"

definition black_board :: Board where
  "black_board = \<lparr> turn = BLACK, st = NullPtr, board_bytes = [3] \<rparr>"

definition four_workers :: mem where
  "four_workers =
     \<lparr> threads_ptr = 0x1000,
       workers = [used_worker 4 10 1 0x2000, used_worker 4 0 2 0x2000,
                  used_worker 4 7 3 0x2000, used_worker 4 3 4 0x2000],
       nnue_heap = no_heap,
       ContemptDrawPenalty = 0,
       ContemptComplexity = 0 \<rparr>"

definition one_file :: os where
  "one_file =
     \<lparr> files = Map.empty(3 \<mapsto> [1, 2, 3]), regions = [], handles = Map.empty,
       page_size = 4096 \<rparr>"


definition refusing_kernel :: kernel where
  "refusing_kernel =
     \<lparr> mmap_place = None, mapping_handle = Some 0x100, view_place = None,
       stat_garbage = 0, sizeHigh_garbage = 0 \<rparr>"

definition willing_kernel :: kernel where
  "willing_kernel =
     \<lparr> mmap_place = Some 0x7000, mapping_handle = Some 0x100, view_place = Some 0x7000,
       stat_garbage = 0, sizeHigh_garbage = 0 \<rparr>"

section \<open>Properties of the loops\<close>

text \<open>
  The loop equations are unfolded one step at a time, by hand, in the proofs below.
\<close>

declare check_aligned.simps [simp del]
declare create_loop.simps [simp del]
declare reset_loop.simps [simp del]
declare clear_computed.simps [simp del]
declare newSearch_loop.simps [simp del]
declare nodes_loop.simps [simp del]
declare tbhits_loop.simps [simp del]

subsection \<open>Clearing the computed flags\<close>

lemma clear_computed_keeps:
  "clear_computed L p j h = Inr h' \<Longrightarrow> flag_clear h q k \<Longrightarrow> flag_clear h' q k"
proof (induction L p j h rule: clear_computed.induct)
  case (1 L p j h)
  show ?case
  proof (cases "j < STACK_SIZE L")
    case False
    with "1.prems" show ?thesis
      by (subst (asm) clear_computed.simps) simp
  next
    case True
    with "1.prems"(1) obtain fr where fr: "h p = Some fr" "j < length fr"
      and rest: "clear_computed L p (Suc j)
         (h(p \<mapsto> fr[j := (fr ! j) \<lparr> accumulator :=
             (accumulator (fr ! j)) \<lparr> computedAccumulation := 0 \<rparr> \<rparr>])) = Inr h'"
      by (subst (asm) clear_computed.simps) (auto split: option.splits if_splits)
    have "flag_clear (h(p \<mapsto> fr[j := (fr ! j) \<lparr> accumulator :=
             (accumulator (fr ! j)) \<lparr> computedAccumulation := 0 \<rparr> \<rparr>])) q k"
      using "1.prems"(2) fr by (auto simp: flag_clear_def nth_list_update)
    with "1.IH" [OF True fr rest] show ?thesis .
  qed
qed

lemma clear_computed_sets:
  "clear_computed L p j h = Inr h' \<Longrightarrow> j \<le> k \<Longrightarrow> k < STACK_SIZE L \<Longrightarrow> flag_clear h' p k"
proof (induction L p j h rule: clear_computed.induct)
  case (1 L p j h)
  from "1.prems" have True: "j < STACK_SIZE L" by simp
  with "1.prems"(1) obtain fr where fr: "h p = Some fr" "j < length fr"
      and rest: "clear_computed L p (Suc j)
         (h(p \<mapsto> fr[j := (fr ! j) \<lparr> accumulator :=
             (accumulator (fr ! j)) \<lparr> computedAccumulation := 0 \<rparr> \<rparr>])) = Inr h'"
      by (subst (asm) clear_computed.simps) (auto split: option.splits if_splits)
  show ?case
  proof (cases "k = j")
    case True
    have "flag_clear (h(p \<mapsto> fr[j := (fr ! j) \<lparr> accumulator :=
             (accumulator (fr ! j)) \<lparr> computedAccumulation := 0 \<rparr> \<rparr>])) p k"
      using fr True by (simp add: flag_clear_def)
    with rest show ?thesis by (rule clear_computed_keeps)
  next
    case False
    with "1.prems" have "Suc j \<le> k" by simp
    from "1.IH" [OF True fr rest this "1.prems"(3)] show ?thesis .
  qed
qed

lemma clear_computed_length:
  "clear_computed L p j h = Inr h' \<Longrightarrow> map_option length (h' q) = map_option length (h q)"
proof (induction L p j h rule: clear_computed.induct)
  case (1 L p j h)
  show ?case
  proof (cases "j < STACK_SIZE L")
    case False
    with "1.prems" show ?thesis
      by (subst (asm) clear_computed.simps) simp
  next
    case True
    with "1.prems"(1) obtain fr where fr: "h p = Some fr" "j < length fr"
      and rest: "clear_computed L p (Suc j)
         (h(p \<mapsto> fr[j := (fr ! j) \<lparr> accumulator :=
             (accumulator (fr ! j)) \<lparr> computedAccumulation := 0 \<rparr> \<rparr>])) = Inr h'"
      by (subst (asm) clear_computed.simps) (auto split: option.splits if_splits)
    from "1.IH" [OF True fr rest] fr show ?thesis by (auto split: if_splits)
  qed
qed

lemma clear_computed_total:
  "map_option length (h p) = Some (STACK_SIZE L) \<Longrightarrow> \<exists>h'. clear_computed L p j h = Inr h'"
proof (induction L p j h rule: clear_computed.induct)
  case (1 L p j h)
  show ?case
  proof (cases "j < STACK_SIZE L")
    case False
    then show ?thesis
      by (subst clear_computed.simps) simp
  next
    case True
    from "1.prems" obtain fr where fr: "h p = Some fr" "length fr = STACK_SIZE L"
      by auto
    with True have j: "j < length fr" by simp
    have "\<exists>h'. clear_computed L p (Suc j)
         (h(p \<mapsto> fr[j := (fr ! j) \<lparr> accumulator :=
             (accumulator (fr ! j)) \<lparr> computedAccumulation := 0 \<rparr> \<rparr>])) = Inr h'"
      by (rule "1.IH" [OF True fr(1) j]) (simp add: fr)
    with True fr j show ?thesis
      by (subst clear_computed.simps) simp
  qed
qed

subsection \<open>The loop of newSearchThreadPool\<close>

lemma pool_nthreads_update:
  "pool_nthreads (m \<lparr> workers := (workers m)[i := t], nnue_heap := h \<rparr>) =
     (if i = 0 \<and> workers m \<noteq> [] then Inr (nthreads t) else pool_nthreads m)"
  by (cases "workers m"; cases i) (simp_all add: pool_nthreads_def)

lemma newSearch_body_Inr:
  assumes "newSearch_body L b lim nfo c i m = Inr m'"
  shows "i < length (workers m)"
    and "\<exists>h'. clear_computed L (raw_nnueStack (workers m ! i)) 0 (nnue_heap m) = Inr h' \<and>
           m' = m \<lparr> workers := (workers m)[i := newSearch_worker b lim nfo c (workers m ! i)],
                    nnue_heap := h' \<rparr>"
  using assms
  by (auto simp: newSearch_body_def newSearch_worker_def Let_def split: if_splits sum.splits)

lemma newSearch_worker_fields [simp]:
  "nthreads (newSearch_worker b lim nfo c t) = nthreads t"
  "raw_nnueStack (newSearch_worker b lim nfo c t) = raw_nnueStack t"
  "nnueStack (newSearch_worker b lim nfo c t) = nnueStack t"
  by (simp_all add: newSearch_worker_def)

lemma newSearch_loop_workers:
  "newSearch_loop L b lim nfo c i m = Inr m' \<Longrightarrow> pool_nthreads m = Inr n \<Longrightarrow>
   length (workers m') = length (workers m) \<and> pool_nthreads m' = Inr n \<and>
   threads_ptr m' = threads_ptr m \<and> ContemptDrawPenalty m' = ContemptDrawPenalty m \<and>
   ContemptComplexity m' = ContemptComplexity m \<and>
   (int i < sint n \<longrightarrow> sint n \<le> int (length (workers m))) \<and>
   (\<forall>k<length (workers m). workers m' ! k =
      (if i \<le> k \<and> int k < sint n then newSearch_worker b lim nfo c (workers m ! k)
       else workers m ! k))"
proof (induction L b lim nfo c i m rule: newSearch_loop.induct)
  case (1 L b lim nfo c i m)
  show ?case
  proof (cases "int i < sint n")
    case False
    with "1.prems" have "m' = m"
      by (subst (asm) newSearch_loop.simps) simp
    with False "1.prems" show ?thesis by auto
  next
    case True
    with "1.prems" obtain m1 where body: "newSearch_body L b lim nfo c i m = Inr m1"
      and rest: "newSearch_loop L b lim nfo c (Suc i) m1 = Inr m'"
      by (subst (asm) newSearch_loop.simps) (auto split: sum.splits)
    from newSearch_body_Inr [OF body] obtain h1 where i: "i < length (workers m)"
      and m1: "m1 = m \<lparr> workers := (workers m)[i := newSearch_worker b lim nfo c (workers m ! i)],
                    nnue_heap := h1 \<rparr>"
      by blast
    have n1: "pool_nthreads m1 = Inr n"
      using "1.prems"(2) i by (cases "workers m"; cases i) (auto simp: m1 pool_nthreads_def)
    note IH = "1.IH" [OF "1.prems"(2) True body rest n1]
    have len: "length (workers m1) = length (workers m)"
      by (simp add: m1)
    have "\<forall>k<length (workers m). workers m' ! k =
      (if i \<le> k \<and> int k < sint n then newSearch_worker b lim nfo c (workers m ! k)
       else workers m ! k)"
    proof (intro allI impI)
      fix k assume k: "k < length (workers m)"
      with IH len have "workers m' ! k =
        (if Suc i \<le> k \<and> int k < sint n then newSearch_worker b lim nfo c (workers m1 ! k)
         else workers m1 ! k)" by simp
      then show "workers m' ! k =
        (if i \<le> k \<and> int k < sint n then newSearch_worker b lim nfo c (workers m ! k)
         else workers m ! k)"
        using True k i by (cases "k = i") (auto simp: m1)
    qed
    moreover have "sint n \<le> int (length (workers m))"
    proof (cases "int (Suc i) < sint n")
      case True
      with IH len show ?thesis by simp
    next
      case False
      with i show ?thesis by simp
    qed
    ultimately show ?thesis
      using IH len by (simp add: m1)
  qed
qed

lemma newSearch_loop_keeps:
  "newSearch_loop L b lim nfo c i m = Inr m' \<Longrightarrow> flag_clear (nnue_heap m) q j \<Longrightarrow>
   flag_clear (nnue_heap m') q j"
proof (induction L b lim nfo c i m rule: newSearch_loop.induct)
  case (1 L b lim nfo c i m)
  from "1.prems"(1) obtain n where n: "pool_nthreads m = Inr n"
    by (subst (asm) newSearch_loop.simps) (auto split: sum.splits)
  show ?case
  proof (cases "int i < sint n")
    case False
    with "1.prems" n have "m' = m"
      by (subst (asm) newSearch_loop.simps) simp
    with "1.prems" show ?thesis by simp
  next
    case True
    with "1.prems" n obtain m1 where body: "newSearch_body L b lim nfo c i m = Inr m1"
      and rest: "newSearch_loop L b lim nfo c (Suc i) m1 = Inr m'"
      by (subst (asm) newSearch_loop.simps) (auto split: sum.splits)
    from newSearch_body_Inr(2) [OF body] obtain h1 where
      cc: "clear_computed L (raw_nnueStack (workers m ! i)) 0 (nnue_heap m) = Inr h1"
      and m1: "nnue_heap m1 = h1"
      by auto
    from clear_computed_keeps [OF cc "1.prems"(2)] have "flag_clear (nnue_heap m1) q j"
      by (simp add: m1)
    from "1.IH" [OF n True body rest this] show ?thesis .
  qed
qed

lemma newSearch_loop_clears:
  "newSearch_loop L b lim nfo c i m = Inr m' \<Longrightarrow> pool_nthreads m = Inr n \<Longrightarrow>
   i \<le> k \<Longrightarrow> int k < sint n \<Longrightarrow> j < STACK_SIZE L \<Longrightarrow>
   flag_clear (nnue_heap m') (raw_nnueStack (workers m ! k)) j"
proof (induction L b lim nfo c i m rule: newSearch_loop.induct)
  case (1 L b lim nfo c i m)
  from "1.prems" have True: "int i < sint n" by simp
  with "1.prems" obtain m1 where body: "newSearch_body L b lim nfo c i m = Inr m1"
      and rest: "newSearch_loop L b lim nfo c (Suc i) m1 = Inr m'"
    by (subst (asm) newSearch_loop.simps) (auto split: sum.splits)
  from newSearch_body_Inr [OF body] obtain h1 where i: "i < length (workers m)"
      and cc: "clear_computed L (raw_nnueStack (workers m ! i)) 0 (nnue_heap m) = Inr h1"
      and m1: "m1 = m \<lparr> workers := (workers m)[i := newSearch_worker b lim nfo c (workers m ! i)],
                    nnue_heap := h1 \<rparr>"
    by blast
  have n1: "pool_nthreads m1 = Inr n"
    using "1.prems"(2) i by (cases "workers m"; cases i) (auto simp: m1 pool_nthreads_def)
  show ?case
  proof (cases "k = i")
    case True
    from clear_computed_sets [OF cc _ "1.prems"(5)]
    have "flag_clear (nnue_heap m1) (raw_nnueStack (workers m ! i)) j"
      by (simp add: m1)
    from newSearch_loop_keeps [OF rest this] True show ?thesis by simp
  next
    case False
    with "1.prems" have "Suc i \<le> k" by simp
    from "1.IH" [OF "1.prems"(2) True body rest n1 this "1.prems"(4,5)]
    have "flag_clear (nnue_heap m') (raw_nnueStack (workers m1 ! k)) j" .
    moreover have "raw_nnueStack (workers m1 ! k) = raw_nnueStack (workers m ! k)"
      using False by (simp add: m1)
    ultimately show ?thesis by simp
  qed
qed

lemma newSearch_loop_total:
  "pool_nthreads m = Inr n \<Longrightarrow> sint n \<le> int (length (workers m)) \<Longrightarrow>
   \<forall>k<length (workers m).
      map_option length (nnue_heap m (raw_nnueStack (workers m ! k))) = Some (STACK_SIZE L) \<Longrightarrow>
   \<exists>m'. newSearch_loop L b lim nfo c i m = Inr m'"
proof (induction L b lim nfo c i m rule: newSearch_loop.induct)
  case (1 L b lim nfo c i m)
  show ?case
  proof (cases "int i < sint n")
    case False
    with "1.prems" show ?thesis
      by (subst newSearch_loop.simps) simp
  next
    case True
    with "1.prems" have i: "i < length (workers m)" by simp
    with "1.prems" obtain h1 where
      cc: "clear_computed L (raw_nnueStack (workers m ! i)) 0 (nnue_heap m) = Inr h1"
      using clear_computed_total by blast
    define m1 where "m1 = m \<lparr> workers := (workers m)[i := newSearch_worker b lim nfo c (workers m ! i)],
                    nnue_heap := h1 \<rparr>"
    have body: "newSearch_body L b lim nfo c i m = Inr m1"
      using i cc by (simp add: newSearch_body_def newSearch_worker_def Let_def m1_def)
    have n1: "pool_nthreads m1 = Inr n"
      using "1.prems"(1) i by (cases "workers m"; cases i) (auto simp: m1_def pool_nthreads_def)
    have len: "sint n \<le> int (length (workers m1))"
      using "1.prems"(2) by (simp add: m1_def)
    have blocks: "\<forall>k<length (workers m1).
      map_option length (nnue_heap m1 (raw_nnueStack (workers m1 ! k))) = Some (STACK_SIZE L)"
    proof (intro allI impI)
      fix k assume "k < length (workers m1)"
      then have k: "k < length (workers m)" by (simp add: m1_def)
      have "raw_nnueStack (workers m1 ! k) = raw_nnueStack (workers m ! k)"
        using k i by (cases "k = i") (simp_all add: m1_def)
      then show "map_option length (nnue_heap m1 (raw_nnueStack (workers m1 ! k))) = Some (STACK_SIZE L)"
        using clear_computed_length [OF cc] "1.prems"(3) k by (simp add: m1_def)
    qed
    from "1.IH" [OF "1.prems"(1) True body n1 len blocks] body True "1.prems"(1)
    show ?thesis
      by (subst newSearch_loop.simps) simp
  qed
qed

subsection \<open>The loops of resetThreadPool and of the two sums\<close>

lemma reset_body_Inr:
  assumes "reset_body i m = Inr m'"
  shows "i < length (workers m)"
    and "m' = m \<lparr> workers := (workers m)[i := reset_worker (workers m ! i)] \<rparr>"
  using assms
  by (auto simp: reset_body_def reset_worker_def Let_def split: if_splits)

lemma reset_worker_nthreads [simp]: "nthreads (reset_worker t) = nthreads t"
  by (simp add: reset_worker_def)

lemma pool_nthreads_workers_update:
  "i < length (workers m) \<Longrightarrow> nthreads t = nthreads (workers m ! i) \<Longrightarrow>
   pool_nthreads (m \<lparr> workers := (workers m)[i := t] \<rparr>) = pool_nthreads m"
  by (cases "workers m"; cases i) (simp_all add: pool_nthreads_def)

lemma reset_loop_workers:
  "reset_loop i m = Inr m' \<Longrightarrow> pool_nthreads m = Inr n \<Longrightarrow>
   length (workers m') = length (workers m) \<and> pool_nthreads m' = Inr n \<and>
   mem.more m' = mem.more m \<and> threads_ptr m' = threads_ptr m \<and> nnue_heap m' = nnue_heap m \<and>
   ContemptDrawPenalty m' = ContemptDrawPenalty m \<and>
   ContemptComplexity m' = ContemptComplexity m \<and>
   (int i < sint n \<longrightarrow> sint n \<le> int (length (workers m))) \<and>
   (\<forall>k<length (workers m). workers m' ! k =
      (if i \<le> k \<and> int k < sint n then reset_worker (workers m ! k) else workers m ! k))"
proof (induction i m rule: reset_loop.induct)
  case (1 i m)
  show ?case
  proof (cases "int i < sint n")
    case False
    with "1.prems" have "m' = m"
      by (subst (asm) reset_loop.simps) simp
    with False "1.prems" show ?thesis by auto
  next
    case True
    with "1.prems" obtain m1 where body: "reset_body i m = Inr m1"
      and rest: "reset_loop (Suc i) m1 = Inr m'"
      by (subst (asm) reset_loop.simps) (auto split: sum.splits)
    from reset_body_Inr [OF body] have i: "i < length (workers m)"
      and m1: "m1 = m \<lparr> workers := (workers m)[i := reset_worker (workers m ! i)] \<rparr>"
      by blast+
    have n1: "pool_nthreads m1 = Inr n"
      using "1.prems"(2) i by (simp add: m1 pool_nthreads_workers_update)
    note IH = "1.IH" [OF "1.prems"(2) True body rest n1]
    have len: "length (workers m1) = length (workers m)"
      by (simp add: m1)
    have "\<forall>k<length (workers m). workers m' ! k =
      (if i \<le> k \<and> int k < sint n then reset_worker (workers m ! k) else workers m ! k)"
    proof (intro allI impI)
      fix k assume k: "k < length (workers m)"
      with IH len have "workers m' ! k =
        (if Suc i \<le> k \<and> int k < sint n then reset_worker (workers m1 ! k)
         else workers m1 ! k)" by simp
      then show "workers m' ! k =
        (if i \<le> k \<and> int k < sint n then reset_worker (workers m ! k) else workers m ! k)"
        using True k i by (cases "k = i") (auto simp: m1)
    qed
    moreover have "sint n \<le> int (length (workers m))"
    proof (cases "int (Suc i) < sint n")
      case True
      with IH len show ?thesis by simp
    next
      case False
      with i show ?thesis by simp
    qed
    ultimately show ?thesis
      using IH len by (simp add: m1)
  qed
qed

lemma reset_loop_total:
  "pool_nthreads m = Inr n \<Longrightarrow> sint n \<le> int (length (workers m)) \<Longrightarrow>
   \<exists>m'. reset_loop i m = Inr m'"
proof (induction i m rule: reset_loop.induct)
  case (1 i m)
  show ?case
  proof (cases "int i < sint n")
    case False
    with "1.prems" show ?thesis
      by (subst reset_loop.simps) simp
  next
    case True
    with "1.prems" have i: "i < length (workers m)" by simp
    define m1 where "m1 = m \<lparr> workers := (workers m)[i := reset_worker (workers m ! i)] \<rparr>"
    have body: "reset_body i m = Inr m1"
      using i by (simp add: reset_body_def reset_worker_def Let_def m1_def)
    have n1: "pool_nthreads m1 = Inr n"
      using "1.prems"(1) i by (simp add: m1_def pool_nthreads_workers_update)
    have len: "sint n \<le> int (length (workers m1))"
      using "1.prems"(2) by (simp add: m1_def)
    from "1.IH" [OF "1.prems"(1) True body n1 len] body True "1.prems"(1)
    show ?thesis
      by (subst reset_loop.simps) simp
  qed
qed

lemma reset_worker_idem: "reset_worker (reset_worker t) = reset_worker t"
  by (simp add: reset_worker_def memset0_def)

lemma all_zero_memset0: "all_zero (memset0 bs)"
  by (simp add: all_zero_def memset0_def list_all_iff)

lemma tables_reset_worker: "list_all all_zero (tables (reset_worker t))"
  by (simp add: tables_def reset_worker_def all_zero_memset0)

lemma nodes_loop_sum:
  "pool_nthreads m = Inr n \<Longrightarrow> sint n = int (length (workers m)) \<Longrightarrow> i \<le> length (workers m) \<Longrightarrow>
   nodes_loop i acc m = Inr (acc + sum_list (map nodes (drop i (workers m))))"
proof (induction i acc m rule: nodes_loop.induct)
  case (1 i acc m)
  show ?case
  proof (cases "i < length (workers m)")
    case True
    then have d: "drop i (workers m) = workers m ! i # drop (Suc i) (workers m)"
      by (simp add: Cons_nth_drop_Suc)
    from True 1 show ?thesis
      by (subst nodes_loop.simps) (simp add: d add.assoc)
  next
    case False
    with 1 show ?thesis
      by (subst nodes_loop.simps) simp
  qed
qed

lemma tbhits_loop_sum:
  "pool_nthreads m = Inr n \<Longrightarrow> sint n = int (length (workers m)) \<Longrightarrow> i \<le> length (workers m) \<Longrightarrow>
   tbhits_loop i acc m = Inr (acc + sum_list (map tbhits (drop i (workers m))))"
proof (induction i acc m rule: tbhits_loop.induct)
  case (1 i acc m)
  show ?case
  proof (cases "i < length (workers m)")
    case True
    then have d: "drop i (workers m) = workers m ! i # drop (Suc i) (workers m)"
      by (simp add: Cons_nth_drop_Suc)
    from True 1 show ?thesis
      by (subst tbhits_loop.simps) (simp add: d add.assoc)
  next
    case False
    with 1 show ?thesis
      by (subst tbhits_loop.simps) simp
  qed
qed

subsection \<open>The alignment check and the body of createThreadPool\<close>

lemma check_aligned_cases:
  "check_aligned L p j = Inr () \<or> check_aligned L p j = Inl ExitFailure"
  by (induction L p j rule: check_aligned.induct) (subst (1 2) check_aligned.simps, auto)

lemma check_aligned_Inr_iff:
  "check_aligned L p j = Inr () \<longleftrightarrow>
     (\<forall>k. j \<le> k \<and> k < STACK_SIZE L \<longrightarrow> accumulation_addr L p k mod 64 = 0)"
proof (induction L p j rule: check_aligned.induct)
  case (1 L p j)
  show ?case
  proof (cases "j < STACK_SIZE L")
    case False
    then show ?thesis by (subst check_aligned.simps) auto
  next
    case True
    show ?thesis
    proof (cases "accumulation_addr L p j mod 64 = 0")
      case False
      with True show ?thesis
        by (subst check_aligned.simps) auto
    next
      case z: True
      have "(\<forall>k. j \<le> k \<and> k < STACK_SIZE L \<longrightarrow> accumulation_addr L p k mod 64 = 0) \<longleftrightarrow>
            (\<forall>k. Suc j \<le> k \<and> k < STACK_SIZE L \<longrightarrow> accumulation_addr L p k mod 64 = 0)"
        using z by (metis Suc_leI le_neq_implies_less Suc_leD)
      with "1.IH" [OF True] True z show ?thesis
        by (subst check_aligned.simps) simp
    qed
  qed
qed

lemma fst_ethereal_alloc: "fst (ethereal_alloc L pf env i h) = alloc_result pf env i"
  by (cases pf) (simp_all add: ethereal_alloc_def alloc_result_def Let_def split: prod.splits)

lemma create_body_Inr:
  assumes "create_body L pf env n i m = Inr m'"
  shows "i < length (workers m)"
    and "check_aligned L (alloc_result pf env i) 0 = Inr ()"
    and "m' = m \<lparr> workers := (workers m)[i := created_worker L pf env n (threads_ptr m) i (workers m ! i)],
                  nnue_heap := snd (ethereal_alloc L pf env i (nnue_heap m)) \<rparr>"
proof -
  from assms show i: "i < length (workers m)"
    by (simp add: create_body_def split: if_splits)
  obtain p h where ph: "ethereal_alloc L pf env i (nnue_heap m) = (p, h)"
    by (cases "ethereal_alloc L pf env i (nnue_heap m)")
  then have p: "p = alloc_result pf env i"
    using fst_ethereal_alloc [of L pf env i "nnue_heap m"] by simp
  from assms i ph have c: "check_aligned L p 0 = Inr ()"
    using check_aligned_cases [of L p 0]
    by (auto simp: create_body_def Let_def split: sum.splits)
  then show "check_aligned L (alloc_result pf env i) 0 = Inr ()"
    by (simp add: p)
  from assms i ph c show "m' = m \<lparr> workers := (workers m)[i := created_worker L pf env n (threads_ptr m) i (workers m ! i)],
                  nnue_heap := snd (ethereal_alloc L pf env i (nnue_heap m)) \<rparr>"
    by (simp add: create_body_def Let_def created_worker_def p)
qed

lemma create_body_ok:
  assumes "i < length (workers m)" and "check_aligned L (alloc_result pf env i) 0 = Inr ()"
  shows "create_body L pf env n i m =
     Inr (m \<lparr> workers := (workers m)[i := created_worker L pf env n (threads_ptr m) i (workers m ! i)],
                  nnue_heap := snd (ethereal_alloc L pf env i (nnue_heap m)) \<rparr>)"
proof -
  obtain p h where ph: "ethereal_alloc L pf env i (nnue_heap m) = (p, h)"
    by (cases "ethereal_alloc L pf env i (nnue_heap m)")
  then have p: "p = alloc_result pf env i"
    using fst_ethereal_alloc [of L pf env i "nnue_heap m"] by simp
  from assms ph show ?thesis
    by (simp add: create_body_def Let_def created_worker_def p)
qed

lemma create_body_exit:
  assumes "i < length (workers m)" and "check_aligned L (alloc_result pf env i) 0 \<noteq> Inr ()"
  shows "create_body L pf env n i m = Inl ExitFailure"
proof -
  obtain p h where ph: "ethereal_alloc L pf env i (nnue_heap m) = (p, h)"
    by (cases "ethereal_alloc L pf env i (nnue_heap m)")
  then have p: "p = alloc_result pf env i"
    using fst_ethereal_alloc [of L pf env i "nnue_heap m"] by simp
  from assms(2) have "check_aligned L (alloc_result pf env i) 0 = Inl ExitFailure"
    using check_aligned_cases [of L "alloc_result pf env i" 0] by simp
  with assms ph show ?thesis
    by (simp add: create_body_def Let_def p)
qed

subsection \<open>The loop of createThreadPool\<close>

lemma ethereal_alloc_keeps:
  "map_option length (h q) = Some (STACK_SIZE L) \<Longrightarrow>
   map_option length (snd (ethereal_alloc L pf env i h) q) = Some (STACK_SIZE L)"
  by (cases pf) (simp_all add: ethereal_alloc_def Let_def split: prod.splits)

lemma ethereal_alloc_block:
  "alloc_result pf env i \<noteq> 0 \<Longrightarrow>
   map_option length (snd (ethereal_alloc L pf env i h) (alloc_result pf env i)) = Some (STACK_SIZE L)"
  by (cases pf; cases "posix_memalign_ret env i")
    (auto simp: ethereal_alloc_def alloc_result_def Let_def split: if_splits)

lemma created_worker_fields [simp]:
  "raw_nnueStack (created_worker L pf env n tp i t) = alloc_result pf env i"
  "nthreads (created_worker L pf env n tp i t) = n"
  by (simp_all add: created_worker_def)

lemma create_loop_workers:
  "create_loop L pf env n i m = Inr m' \<Longrightarrow>
   length (workers m') = length (workers m) \<and> threads_ptr m' = threads_ptr m \<and>
   ContemptDrawPenalty m' = ContemptDrawPenalty m \<and>
   ContemptComplexity m' = ContemptComplexity m \<and>
   (int i < sint n \<longrightarrow> sint n \<le> int (length (workers m))) \<and>
   (\<forall>k. i \<le> k \<and> int k < sint n \<longrightarrow> check_aligned L (alloc_result pf env k) 0 = Inr ()) \<and>
   (\<forall>k<length (workers m). workers m' ! k =
      (if i \<le> k \<and> int k < sint n then created_worker L pf env n (threads_ptr m) k (workers m ! k)
       else workers m ! k))"
proof (induction L pf env n i m rule: create_loop.induct)
  case (1 L pf env n i m)
  show ?case
  proof (cases "int i < sint n")
    case False
    with "1.prems" have "m' = m"
      by (subst (asm) create_loop.simps) simp
    with False show ?thesis by auto
  next
    case True
    with "1.prems" obtain m1 where body: "create_body L pf env n i m = Inr m1"
      and rest: "create_loop L pf env n (Suc i) m1 = Inr m'"
      by (subst (asm) create_loop.simps) (auto split: sum.splits)
    from create_body_Inr [OF body] have i: "i < length (workers m)"
      and chk: "check_aligned L (alloc_result pf env i) 0 = Inr ()"
      and m1: "m1 = m \<lparr> workers := (workers m)[i := created_worker L pf env n (threads_ptr m) i (workers m ! i)],
                  nnue_heap := snd (ethereal_alloc L pf env i (nnue_heap m)) \<rparr>"
      by blast+
    note IH = "1.IH" [OF True body rest]
    have len: "length (workers m1) = length (workers m)" and tp: "threads_ptr m1 = threads_ptr m"
      by (simp_all add: m1)
    have w: "\<forall>k<length (workers m). workers m' ! k =
      (if i \<le> k \<and> int k < sint n then created_worker L pf env n (threads_ptr m) k (workers m ! k)
       else workers m ! k)"
    proof (intro allI impI)
      fix k assume k: "k < length (workers m)"
      with IH len tp have "workers m' ! k =
        (if Suc i \<le> k \<and> int k < sint n then created_worker L pf env n (threads_ptr m) k (workers m1 ! k)
         else workers m1 ! k)" by simp
      then show "workers m' ! k =
        (if i \<le> k \<and> int k < sint n then created_worker L pf env n (threads_ptr m) k (workers m ! k)
         else workers m ! k)"
        using True k i by (cases "k = i") (auto simp: m1)
    qed
    have c: "\<forall>k. i \<le> k \<and> int k < sint n \<longrightarrow> check_aligned L (alloc_result pf env k) 0 = Inr ()"
    proof (intro allI impI)
      fix k assume k: "i \<le> k \<and> int k < sint n"
      show "check_aligned L (alloc_result pf env k) 0 = Inr ()"
      proof (cases "k = i")
        case True
        with chk show ?thesis by simp
      next
        case False
        with k have "Suc i \<le> k \<and> int k < sint n" by simp
        with IH show ?thesis by blast
      qed
    qed
    have "sint n \<le> int (length (workers m))"
    proof (cases "int (Suc i) < sint n")
      case True
      with IH len show ?thesis by simp
    next
      case False
      with i show ?thesis by simp
    qed
    with w c show ?thesis
      using IH len tp by (simp add: m1)
  qed
qed

lemma create_loop_keeps:
  "create_loop L pf env n i m = Inr m' \<Longrightarrow>
   map_option length (nnue_heap m q) = Some (STACK_SIZE L) \<Longrightarrow>
   map_option length (nnue_heap m' q) = Some (STACK_SIZE L)"
proof (induction L pf env n i m rule: create_loop.induct)
  case (1 L pf env n i m)
  show ?case
  proof (cases "int i < sint n")
    case False
    with "1.prems" have "m' = m"
      by (subst (asm) create_loop.simps) simp
    with "1.prems" show ?thesis by simp
  next
    case True
    with "1.prems" obtain m1 where body: "create_body L pf env n i m = Inr m1"
      and rest: "create_loop L pf env n (Suc i) m1 = Inr m'"
      by (subst (asm) create_loop.simps) (auto split: sum.splits)
    from create_body_Inr(3) [OF body]
    have "nnue_heap m1 = snd (ethereal_alloc L pf env i (nnue_heap m))"
      by simp
    with ethereal_alloc_keeps [of "nnue_heap m" q L pf env i] "1.prems"(2)
    have "map_option length (nnue_heap m1 q) = Some (STACK_SIZE L)"
      by simp
    from "1.IH" [OF True body rest this] show ?thesis .
  qed
qed

lemma create_loop_blocks:
  "create_loop L pf env n i m = Inr m' \<Longrightarrow> i \<le> k \<Longrightarrow> int k < sint n \<Longrightarrow>
   alloc_result pf env k \<noteq> 0 \<Longrightarrow>
   map_option length (nnue_heap m' (alloc_result pf env k)) = Some (STACK_SIZE L)"
proof (induction L pf env n i m rule: create_loop.induct)
  case (1 L pf env n i m)
  from "1.prems" have True: "int i < sint n" by simp
  with "1.prems" obtain m1 where body: "create_body L pf env n i m = Inr m1"
    and rest: "create_loop L pf env n (Suc i) m1 = Inr m'"
    by (subst (asm) create_loop.simps) (auto split: sum.splits)
  from create_body_Inr(3) [OF body]
  have h1: "nnue_heap m1 = snd (ethereal_alloc L pf env i (nnue_heap m))"
    by simp
  show ?case
  proof (cases "k = i")
    case True
    with "1.prems"(4) have "map_option length (nnue_heap m1 (alloc_result pf env k)) = Some (STACK_SIZE L)"
      by (simp add: h1 ethereal_alloc_block)
    with rest show ?thesis by (rule create_loop_keeps)
  next
    case False
    with "1.prems" have "Suc i \<le> k" by simp
    from "1.IH" [OF True body rest this "1.prems"(3,4)] show ?thesis .
  qed
qed

lemma create_loop_exit:
  "sint n \<le> int (length (workers m)) \<Longrightarrow> i \<le> k \<Longrightarrow> int k < sint n \<Longrightarrow>
   check_aligned L (alloc_result pf env k) 0 \<noteq> Inr () \<Longrightarrow>
   create_loop L pf env n i m = Inl ExitFailure"
proof (induction L pf env n i m rule: create_loop.induct)
  case (1 L pf env n i m)
  from "1.prems" have True: "int i < sint n" and i: "i < length (workers m)" by simp_all
  show ?case
  proof (cases "check_aligned L (alloc_result pf env i) 0 = Inr ()")
    case False
    with True i show ?thesis
      by (subst create_loop.simps) (simp add: create_body_exit)
  next
    case c: True
    with "1.prems" have ki: "Suc i \<le> k" by (cases "k = i") auto
    note body = create_body_ok [OF i c, of n]
    have "create_loop L pf env n (Suc i)
        (m \<lparr> workers := (workers m)[i := created_worker L pf env n (threads_ptr m) i (workers m ! i)],
                  nnue_heap := snd (ethereal_alloc L pf env i (nnue_heap m)) \<rparr>) = Inl ExitFailure"
      by (rule "1.IH" [OF True body _ ki "1.prems"(3,4)]) (use "1.prems"(1) in simp)
    with True body show ?thesis
      by (subst create_loop.simps) simp
  qed
qed

lemma create_loop_total:
  "sint n \<le> int (length (workers m)) \<Longrightarrow>
   \<forall>k. i \<le> k \<and> int k < sint n \<longrightarrow> check_aligned L (alloc_result pf env k) 0 = Inr () \<Longrightarrow>
   \<exists>m'. create_loop L pf env n i m = Inr m'"
proof (induction L pf env n i m rule: create_loop.induct)
  case (1 L pf env n i m)
  show ?case
  proof (cases "int i < sint n")
    case False
    then show ?thesis
      by (subst create_loop.simps) simp
  next
    case True
    with "1.prems" have i: "i < length (workers m)"
      and c: "check_aligned L (alloc_result pf env i) 0 = Inr ()" by simp_all
    note body = create_body_ok [OF i c, of n]
    have "\<exists>m'. create_loop L pf env n (Suc i)
        (m \<lparr> workers := (workers m)[i := created_worker L pf env n (threads_ptr m) i (workers m ! i)],
                  nnue_heap := snd (ethereal_alloc L pf env i (nnue_heap m)) \<rparr>) = Inr m'"
      by (rule "1.IH" [OF True body]) (use "1.prems" in auto)
    with True body show ?thesis
      by (subst create_loop.simps) simp
  qed
qed

lemma word64_mod64_iff: "(a :: addr) mod 64 = 0 \<longleftrightarrow> unat a mod 64 = 0"
proof -
  have "unat (a mod 64) = unat a mod 64"
    by (simp add: unat_mod)
  then show ?thesis
    by (metis unat_eq_zero)
qed

lemma mod64_of_mod_2p64: "(x mod 18446744073709551616) mod 64 = (x :: nat) mod 64"
  by (rule mod_mod_cancel) simp

lemma word64_mod64_add:
  fixes a b :: addr
  assumes "a mod 64 = 0" and "b mod 64 = 0"
  shows "(a + b) mod 64 = 0"
proof -
  have "unat (a + b) mod 64 = (unat a + unat b) mod 64"
    by (simp add: unat_word_ariths mod64_of_mod_2p64)
  also have "\<dots> = 0"
    using assms by (simp add: word64_mod64_iff mod_add_eq [symmetric])
  finally show ?thesis
    by (simp add: word64_mod64_iff)
qed

lemma word64_mod64_mult:
  fixes a b :: addr
  assumes "b mod 64 = 0"
  shows "(a * b) mod 64 = 0"
proof -
  have "unat (a * b) mod 64 = (unat a * unat b) mod 64"
    by (simp add: unat_word_ariths mod64_of_mod_2p64)
  also have "\<dots> = 0"
    using assms by (simp add: word64_mod64_iff mod_mult_right_eq [symmetric])
  finally show ?thesis
    by (simp add: word64_mod64_iff)
qed

lemma word64_mod64_of_nat:
  assumes "k mod 64 = 0"
  shows "(of_nat k :: addr) mod 64 = 0"
proof -
  have "unat (of_nat k :: addr) mod 64 = k mod 64"
    by (simp add: unat_of_nat mod64_of_mod_2p64)
  with assms show ?thesis
    by (simp add: word64_mod64_iff)
qed

lemma accumulation_addr_aligned:
  assumes "p mod 64 = 0" and "sizeof_NNUEStack L mod 64 = 0" and "offsetof_accumulation L mod 64 = 0"
  shows "accumulation_addr L p j mod 64 = 0"
  unfolding accumulation_addr_def
  by (intro word64_mod64_add word64_mod64_mult word64_mod64_of_nat assms)

subsection \<open>Whole calls\<close>

lemma newSearchThreadPool_workers:
  assumes "newSearchThreadPool L b lim nfo m = Inr m'" and "pool_nthreads m = Inr n"
    and "int i < sint n"
  shows "i < length (workers m)" and "length (workers m') = length (workers m)"
    and "workers m' ! i =
      newSearch_worker b lim nfo (search_contempt (ContemptDrawPenalty m) (ContemptComplexity m) b)
        (workers m ! i)"
proof -
  note w = newSearch_loop_workers [OF assms(1) [unfolded newSearchThreadPool_def] assms(2)]
  from w assms(3) show i: "i < length (workers m)"
    by (cases "int 0 < sint n") auto
  from w show "length (workers m') = length (workers m)"
    by simp
  from w i assms(3) show "workers m' ! i =
      newSearch_worker b lim nfo (search_contempt (ContemptDrawPenalty m) (ContemptComplexity m) b)
        (workers m ! i)"
    by simp
qed

lemma pool_ok_nthreads:
  assumes "pool_ok L m"
  shows "\<exists>n. pool_nthreads m = Inr n \<and> sint n = int (length (workers m))"
  using assms by (cases "workers m") (simp_all add: pool_ok_def pool_nthreads_def)

lemma pool_ok_blocks:
  assumes "pool_ok L m" and "k < length (workers m)"
  shows "map_option length (nnue_heap m (raw_nnueStack (workers m ! k))) = Some (STACK_SIZE L)"
  using assms by (simp add: pool_ok_def list_all_length)

section \<open>The claims\<close>

text \<open>
  C1. After \<^verbatim>\<open>newSearchThreadPool\<close>, whatever the workers held before, every worker's
  node counter, table-base-hit counter and height are 0 and the
  \<^verbatim>\<open>computedAccumulation\<close> flag of every one of its \<^verbatim>\<open>STACK_SIZE\<close> accumulator frames
  is 0. On a pool as \<^verbatim>\<open>createThreadPool\<close> leaves it the call returns.
\<close>

theorem newSearchThreadPool_resets:
  "(pool_ok L m \<longrightarrow> (\<exists>m'. newSearchThreadPool L b lim nfo m = Inr m')) \<and>
   (newSearchThreadPool L b lim nfo m = Inr m' \<and> pool_nthreads m = Inr n \<and> int i < sint n \<longrightarrow>
      i < length (workers m') \<and>
      nodes (workers m' ! i) = 0 \<and> tbhits (workers m' ! i) = 0 \<and> height (workers m' ! i) = 0 \<and>
      (\<forall>j<STACK_SIZE L. flag_clear (nnue_heap m') (raw_nnueStack (workers m' ! i)) j))"
proof (intro conjI impI)
  assume ok: "pool_ok L m"
  from pool_ok_nthreads [OF ok] obtain n' where n': "pool_nthreads m = Inr n'"
    "sint n' = int (length (workers m))" by blast
  have "\<exists>m'. newSearch_loop L b lim nfo
      (search_contempt (ContemptDrawPenalty m) (ContemptComplexity m) b) 0 m = Inr m'"
    by (rule newSearch_loop_total [OF n'(1)]) (use n'(2) pool_ok_blocks [OF ok] in auto)
  then show "\<exists>m'. newSearchThreadPool L b lim nfo m = Inr m'"
    by (simp add: newSearchThreadPool_def)
next
  assume a: "newSearchThreadPool L b lim nfo m = Inr m' \<and> pool_nthreads m = Inr n \<and> int i < sint n"
  then have run: "newSearchThreadPool L b lim nfo m = Inr m'" and n: "pool_nthreads m = Inr n"
    and i: "int i < sint n" by simp_all
  note w = newSearchThreadPool_workers [OF run n i]
  from w show "i < length (workers m')" by simp
  from w(3) show "nodes (workers m' ! i) = 0" "tbhits (workers m' ! i) = 0"
    "height (workers m' ! i) = 0"
    by (simp_all add: newSearch_worker_def)
  from w(3) have raw: "raw_nnueStack (workers m' ! i) = raw_nnueStack (workers m ! i)"
    by simp
  show "\<forall>j<STACK_SIZE L. flag_clear (nnue_heap m') (raw_nnueStack (workers m' ! i)) j"
  proof (intro allI impI)
    fix j assume "j < STACK_SIZE L"
    from newSearch_loop_clears [OF run [unfolded newSearchThreadPool_def] n le0 i this]
    show "flag_clear (nnue_heap m') (raw_nnueStack (workers m' ! i)) j"
      by (simp add: raw)
  qed
qed

theorem newSearchThreadPool_resets_witness:
  "pool_ok small_layout used_pool \<and> pool_nthreads used_pool = Inr 2 \<and>
   nodes (workers used_pool ! 1) = 7 \<and>
   \<not> flag_clear (nnue_heap used_pool) (raw_nnueStack (workers used_pool ! 1)) 0 \<and>
   (\<exists>m'. newSearchThreadPool small_layout white_board 1 2 used_pool = Inr m' \<and>
      nodes (workers m' ! 1) = 0 \<and> tbhits (workers m' ! 1) = 0 \<and> height (workers m' ! 1) = 0 \<and>
      flag_clear (nnue_heap m') (raw_nnueStack (workers m' ! 1)) 0 \<and>
      flag_clear (nnue_heap m') (raw_nnueStack (workers m' ! 1)) 1)"
proof -
  have ok: "pool_ok small_layout used_pool"
    by (simp add: pool_ok_def used_pool_def used_worker_def small_layout_def no_heap_def)
  have n: "pool_nthreads used_pool = Inr 2"
    by (simp add: pool_nthreads_def used_pool_def used_worker_def)
  have before: "nodes (workers used_pool ! 1) = 7"
    "\<not> flag_clear (nnue_heap used_pool) (raw_nnueStack (workers used_pool ! 1)) 0"
    by (simp_all add: used_pool_def used_worker_def flag_clear_def no_heap_def stale_frame_def)
  from newSearchThreadPool_resets [of small_layout used_pool white_board 1 2] ok
  obtain m' where run: "newSearchThreadPool small_layout white_board 1 2 used_pool = Inr m'"
    by blast
  have two: "\<forall>j<STACK_SIZE small_layout. P j \<Longrightarrow> P 0 \<and> P 1" for P
    by (simp add: small_layout_def)
  from newSearchThreadPool_resets [of small_layout used_pool white_board 1 2 m' 2 1] run n
  have "nodes (workers m' ! 1) = 0 \<and> tbhits (workers m' ! 1) = 0 \<and> height (workers m' ! 1) = 0 \<and>
      flag_clear (nnue_heap m') (raw_nnueStack (workers m' ! 1)) 0 \<and>
      flag_clear (nnue_heap m') (raw_nnueStack (workers m' ! 1)) 1"
    using two [of "\<lambda>j. flag_clear (nnue_heap m') (raw_nnueStack (workers m' ! 1)) j"] by simp
  with ok n before run show ?thesis by blast
qed

text \<open>
  C3. On a pool whose stored count is its number of workers,
  \<^verbatim>\<open>nodesSearchedThreadPool\<close> returns the sum of the workers' node counters and
  \<^verbatim>\<open>tbhitsThreadPool\<close> the sum of their table-base-hit counters, as 64-bit words
  (addition wraps). Both only read: they return a number, and the memory they were
  given is not part of their result.
\<close>

theorem totals_are_sums:
  "pool_nthreads m = Inr n \<and> sint n = int (length (workers m)) \<longrightarrow>
     nodesSearchedThreadPool m = Inr (sum_list (map nodes (workers m))) \<and>
     tbhitsThreadPool m = Inr (sum_list (map tbhits (workers m)))"
proof
  assume a: "pool_nthreads m = Inr n \<and> sint n = int (length (workers m))"
  then have n: "pool_nthreads m = Inr n" and len: "sint n = int (length (workers m))"
    by simp_all
  from nodes_loop_sum [OF n len, of 0 0] tbhits_loop_sum [OF n len, of 0 0]
  show "nodesSearchedThreadPool m = Inr (sum_list (map nodes (workers m))) \<and>
     tbhitsThreadPool m = Inr (sum_list (map tbhits (workers m)))"
    by (simp add: nodesSearchedThreadPool_def tbhitsThreadPool_def)
qed

theorem totals_are_sums_witness:
  "pool_nthreads four_workers = Inr 4 \<and> map nodes (workers four_workers) = [10, 0, 7, 3] \<and>
   nodesSearchedThreadPool four_workers = Inr 20 \<and> tbhitsThreadPool four_workers = Inr 10"
proof -
  have n: "pool_nthreads four_workers = Inr 4" "sint (4 :: cint) = int (length (workers four_workers))"
    by (simp_all add: pool_nthreads_def four_workers_def used_worker_def)
  have v: "map nodes (workers four_workers) = [10, 0, 7, 3]"
    "map tbhits (workers four_workers) = [1, 2, 3, 4]"
    by (simp_all add: four_workers_def used_worker_def)
  from totals_are_sums [of four_workers 4] n v show ?thesis
    by simp
qed

text \<open>
  C4. With draw penalty 20 and complexity 5, the contempt that
  \<^verbatim>\<open>newSearchThreadPool\<close> stores in a worker unpacks to the pair 25, 20 when White
  is to move, and to the pair -25, -20 when Black is to move.
\<close>

theorem contempt_pair_20_5:
  "ContemptDrawPenalty m = 20 \<and> ContemptComplexity m = 5 \<and>
   newSearchThreadPool L b lim nfo m = Inr m' \<and> pool_nthreads m = Inr n \<and> int i < sint n \<longrightarrow>
     (turn b = WHITE \<longrightarrow>
        ScoreMG (contempt (workers m' ! i)) = 25 \<and> ScoreEG (contempt (workers m' ! i)) = 20) \<and>
     (turn b = BLACK \<longrightarrow>
        ScoreMG (contempt (workers m' ! i)) = - 25 \<and> ScoreEG (contempt (workers m' ! i)) = - 20)"
proof
  assume a: "ContemptDrawPenalty m = 20 \<and> ContemptComplexity m = 5 \<and>
   newSearchThreadPool L b lim nfo m = Inr m' \<and> pool_nthreads m = Inr n \<and> int i < sint n"
  then have run: "newSearchThreadPool L b lim nfo m = Inr m'" and n: "pool_nthreads m = Inr n"
    and i: "int i < sint n" by simp_all
  from newSearchThreadPool_workers(3) [OF run n i] a
  have c: "contempt (workers m' ! i) = search_contempt 20 5 b"
    by (simp add: newSearch_worker_def)
  show "(turn b = WHITE \<longrightarrow>
        ScoreMG (contempt (workers m' ! i)) = 25 \<and> ScoreEG (contempt (workers m' ! i)) = 20) \<and>
     (turn b = BLACK \<longrightarrow>
        ScoreMG (contempt (workers m' ! i)) = - 25 \<and> ScoreEG (contempt (workers m' ! i)) = - 20)"
    unfolding c
    by (simp add: search_contempt_def MakeScore_def ScoreMG_def ScoreEG_def WHITE_def BLACK_def)
qed

theorem contempt_pair_20_5_witness:
  "(\<exists>m'. newSearchThreadPool small_layout white_board 1 2 used_pool = Inr m' \<and>
      ScoreMG (contempt (workers m' ! 1)) = 25 \<and> ScoreEG (contempt (workers m' ! 1)) = 20) \<and>
   (\<exists>m'. newSearchThreadPool small_layout black_board 1 2 used_pool = Inr m' \<and>
      ScoreMG (contempt (workers m' ! 1)) = - 25 \<and> ScoreEG (contempt (workers m' ! 1)) = - 20)"
proof -
  have ok: "pool_ok small_layout used_pool"
    by (simp add: pool_ok_def used_pool_def used_worker_def small_layout_def no_heap_def)
  have n: "pool_nthreads used_pool = Inr 2"
    "ContemptDrawPenalty used_pool = 20" "ContemptComplexity used_pool = 5"
    by (simp_all add: pool_nthreads_def used_pool_def used_worker_def)
  have t: "turn white_board = WHITE" "turn black_board = BLACK" "WHITE \<noteq> BLACK"
    by (simp_all add: white_board_def black_board_def WHITE_def BLACK_def)
  from newSearch_loop_total [of used_pool 2 small_layout white_board 1 2 _ 0]
  obtain mw where w: "newSearchThreadPool small_layout white_board 1 2 used_pool = Inr mw"
    using pool_ok_blocks [OF ok] n(1)
    by (auto simp: newSearchThreadPool_def used_pool_def)
  from newSearch_loop_total [of used_pool 2 small_layout black_board 1 2 _ 0]
  obtain mb where b: "newSearchThreadPool small_layout black_board 1 2 used_pool = Inr mb"
    using pool_ok_blocks [OF ok] n(1)
    by (auto simp: newSearchThreadPool_def used_pool_def)
  from contempt_pair_20_5 [of used_pool small_layout white_board 1 2 mw 2 1] w n t
  have "ScoreMG (contempt (workers mw ! 1)) = 25 \<and> ScoreEG (contempt (workers mw ! 1)) = 20"
    by simp
  moreover
  from contempt_pair_20_5 [of used_pool small_layout black_board 1 2 mb 2 1] b n t
  have "ScoreMG (contempt (workers mb ! 1)) = - 25 \<and> ScoreEG (contempt (workers mb ! 1)) = - 20"
    by simp
  ultimately show ?thesis
    using w b by blast
qed

lemma resetThreadPool_workers:
  assumes "resetThreadPool m = Inr m'"
  shows "\<exists>n. pool_nthreads m = Inr n \<and> pool_nthreads m' = Inr n \<and>
           (0 < sint n \<longrightarrow> sint n \<le> int (length (workers m)))"
    and "length (workers m') = length (workers m)"
    and "threads_ptr m' = threads_ptr m \<and> nnue_heap m' = nnue_heap m \<and>
         ContemptDrawPenalty m' = ContemptDrawPenalty m \<and>
         ContemptComplexity m' = ContemptComplexity m"
    and "\<And>n k. pool_nthreads m = Inr n \<Longrightarrow> k < length (workers m) \<Longrightarrow>
           workers m' ! k = (if int k < sint n then reset_worker (workers m ! k) else workers m ! k)"
proof -
  from assms obtain n where n: "pool_nthreads m = Inr n"
    unfolding resetThreadPool_def
    by (subst (asm) reset_loop.simps) (auto split: sum.splits)
  note w = reset_loop_workers [OF assms [unfolded resetThreadPool_def] n]
  from w n show "\<exists>n. pool_nthreads m = Inr n \<and> pool_nthreads m' = Inr n \<and>
           (0 < sint n \<longrightarrow> sint n \<le> int (length (workers m)))"
    by simp
  from w show "length (workers m') = length (workers m)"
    by simp
  from w show "threads_ptr m' = threads_ptr m \<and> nnue_heap m' = nnue_heap m \<and>
         ContemptDrawPenalty m' = ContemptDrawPenalty m \<and>
         ContemptComplexity m' = ContemptComplexity m"
    by simp
  fix n' k assume "pool_nthreads m = Inr n'" and k: "k < length (workers m)"
  with n have "n' = n" by simp
  with w k show "workers m' ! k =
      (if int k < sint n' then reset_worker (workers m ! k) else workers m ! k)"
    by simp
qed

lemma resetThreadPool_total:
  assumes "pool_nthreads m = Inr n" and "sint n \<le> int (length (workers m))"
  shows "\<exists>m'. resetThreadPool m = Inr m'"
  unfolding resetThreadPool_def using assms by (rule reset_loop_total)

text \<open>
  C5. \<^verbatim>\<open>resetThreadPool\<close> is a function of the pool, it returns on every pool whose
  stored count is its number of workers, and after it every byte of the killer,
  counter-move, history, capture-history and continuation tables and of the two
  evaluation tables of every worker is zero. Run again on its own result it returns
  that result unchanged.
\<close>

theorem resetThreadPool_idempotent:
  "(pool_nthreads m = Inr n \<and> sint n = int (length (workers m)) \<longrightarrow>
      (\<exists>m'. resetThreadPool m = Inr m')) \<and>
   (resetThreadPool m = Inr m' \<longrightarrow>
      resetThreadPool m' = Inr m' \<and>
      (\<forall>i. pool_nthreads m = Inr n \<and> int i < sint n \<longrightarrow>
         i < length (workers m') \<and> list_all all_zero (tables (workers m' ! i))))"
proof (intro conjI impI allI)
  assume "pool_nthreads m = Inr n \<and> sint n = int (length (workers m))"
  then show "\<exists>m'. resetThreadPool m = Inr m'"
    using resetThreadPool_total [of m n] by simp
next
  assume run: "resetThreadPool m = Inr m'"
  note w = resetThreadPool_workers [OF run]
  from w(1) obtain c where c: "pool_nthreads m = Inr c" "pool_nthreads m' = Inr c"
    "0 < sint c \<longrightarrow> sint c \<le> int (length (workers m))" by blast
  have "\<exists>m''. resetThreadPool m' = Inr m''"
  proof (cases "0 < sint c")
    case True
    with c w(2) show ?thesis
      using resetThreadPool_total [of m' c] by simp
  next
    case False
    with c show ?thesis
      using resetThreadPool_total [of m' c] by simp
  qed
  then obtain m'' where again: "resetThreadPool m' = Inr m''" ..
  note w' = resetThreadPool_workers [OF again]
  have "workers m'' = workers m'"
  proof (rule nth_equalityI)
    show "length (workers m'') = length (workers m')"
      using w'(2) .
  next
    fix k assume "k < length (workers m'')"
    then have k: "k < length (workers m')" "k < length (workers m)"
      using w(2) w'(2) by simp_all
    from w(4) [OF c(1) k(2)] w'(4) [OF c(2) k(1)]
    show "workers m'' ! k = workers m' ! k"
      by (simp add: reset_worker_idem)
  qed
  moreover have "mem.more m'' = mem.more m'"
    by simp
  ultimately have "m'' = m'"
    using w'(3) by (intro mem.equality) simp_all
  with again show "resetThreadPool m' = Inr m'"
    by simp
next
  fix i
  assume run: "resetThreadPool m = Inr m'"
    and "pool_nthreads m = Inr n \<and> int i < sint n"
  then have n: "pool_nthreads m = Inr n" and i: "int i < sint n" by simp_all
  note w = resetThreadPool_workers [OF run]
  from w(1) n i have il: "i < length (workers m)"
    by auto
  with w(2) show "i < length (workers m')"
    by simp
  from w(4) [OF n il] i show "list_all all_zero (tables (workers m' ! i))"
    by (simp add: tables_reset_worker)
qed

theorem resetThreadPool_idempotent_witness:
  "pool_nthreads used_pool = Inr 2 \<and> killers (workers used_pool ! 1) = [5] \<and>
   (\<exists>m'. resetThreadPool used_pool = Inr m' \<and> resetThreadPool m' = Inr m' \<and>
      list_all all_zero (tables (workers m' ! 1)) \<and> killers (workers m' ! 1) = [0])"
proof -
  have n: "pool_nthreads used_pool = Inr 2" "sint (2 :: cint) = int (length (workers used_pool))"
    "killers (workers used_pool ! 1) = [5]"
    by (simp_all add: pool_nthreads_def used_pool_def used_worker_def)
  from resetThreadPool_idempotent [of used_pool 2] n
  obtain m' where run: "resetThreadPool used_pool = Inr m'"
    by blast
  from resetThreadPool_idempotent [of used_pool 2 m'] run n
  have r: "resetThreadPool m' = Inr m'" "list_all all_zero (tables (workers m' ! 1))"
    by simp_all
  have "resetThreadPool used_pool = Inr m' \<Longrightarrow> killers (workers m' ! 1) = [0]"
    by (simp add: resetThreadPool_def reset_loop.simps reset_body_def pool_nthreads_def
        used_pool_def used_worker_def memset0_def Let_def)
      (auto simp: memset0_def)
  with run r n show ?thesis
    by blast
qed

text \<open>
  C6. \<^verbatim>\<open>newSearchThreadPool\<close> leaves the seven tables of every worker as they were;
  \<^verbatim>\<open>resetThreadPool\<close> is the operation that zeroes them. The two sums return a number
  and no memory.
\<close>

theorem newSearchThreadPool_keeps_tables:
  "(newSearchThreadPool L b lim nfo m = Inr m' \<longrightarrow>
      length (workers m') = length (workers m) \<and>
      (\<forall>i<length (workers m). tables (workers m' ! i) = tables (workers m ! i))) \<and>
   (resetThreadPool m = Inr m'' \<and> pool_nthreads m = Inr n \<and> int i < sint n \<longrightarrow>
      list_all all_zero (tables (workers m'' ! i)))"
proof (intro conjI impI)
  assume run: "newSearchThreadPool L b lim nfo m = Inr m'"
  then obtain c where c: "pool_nthreads m = Inr c"
    unfolding newSearchThreadPool_def
    by (subst (asm) newSearch_loop.simps) (auto split: sum.splits)
  note w = newSearch_loop_workers [OF run [unfolded newSearchThreadPool_def] c]
  from w show "length (workers m') = length (workers m)"
    by simp
  show "\<forall>i<length (workers m). tables (workers m' ! i) = tables (workers m ! i)"
  proof (intro allI impI)
    fix i assume "i < length (workers m)"
    with w show "tables (workers m' ! i) = tables (workers m ! i)"
      by (simp add: tables_def newSearch_worker_def)
  qed
next
  assume a: "resetThreadPool m = Inr m'' \<and> pool_nthreads m = Inr n \<and> int i < sint n"
  then have run: "resetThreadPool m = Inr m''" and n: "pool_nthreads m = Inr n"
    and i: "int i < sint n" by simp_all
  note w = resetThreadPool_workers [OF run]
  from w(1) n i have "i < length (workers m)"
    by auto
  from w(4) [OF n this] i show "list_all all_zero (tables (workers m'' ! i))"
    by (simp add: tables_reset_worker)
qed

theorem newSearchThreadPool_keeps_tables_witness:
  "tables (workers used_pool ! 1) = [[0], [0], [5], [0], [6], [0], [0]] \<and>
   (\<exists>m'. newSearchThreadPool small_layout white_board 1 2 used_pool = Inr m' \<and>
      tables (workers m' ! 1) = [[0], [0], [5], [0], [6], [0], [0]]) \<and>
   (\<exists>m''. resetThreadPool used_pool = Inr m'' \<and> list_all all_zero (tables (workers m'' ! 1)))"
proof -
  have ok: "pool_ok small_layout used_pool"
    by (simp add: pool_ok_def used_pool_def used_worker_def small_layout_def no_heap_def)
  have n: "pool_nthreads used_pool = Inr 2" "sint (2 :: cint) = int (length (workers used_pool))"
    "length (workers used_pool) = 2"
    by (simp_all add: pool_nthreads_def used_pool_def used_worker_def)
  have t: "tables (workers used_pool ! 1) = [[0], [0], [5], [0], [6], [0], [0]]"
    by (simp add: used_pool_def used_worker_def tables_def calloc_Thread_def small_layout_def
        zero_bytes_def)
  from newSearch_loop_total [of used_pool 2 small_layout white_board 1 2 _ 0]
  obtain m' where run: "newSearchThreadPool small_layout white_board 1 2 used_pool = Inr m'"
    using pool_ok_blocks [OF ok] n(1)
    by (auto simp: newSearchThreadPool_def used_pool_def)
  from resetThreadPool_total [of used_pool 2] n
  obtain m'' where rst: "resetThreadPool used_pool = Inr m''"
    by auto
  from newSearchThreadPool_keeps_tables [of small_layout white_board 1 2 used_pool m' m'' 2 1]
    run rst n t
  have "tables (workers m' ! 1) = [[0], [0], [5], [0], [6], [0], [0]]"
    "list_all all_zero (tables (workers m'' ! 1))"
    by simp_all
  with t run rst show ?thesis
    by blast
qed

lemma createThreadPool_Inr:
  assumes "createThreadPool L pf env h cdp cc n = Inr m"
  shows "length (workers m) = nat (sint n)"
    and "\<And>k. k < length (workers m) \<Longrightarrow>
           workers m ! k = created_worker L pf env n (calloc_ret env) k (calloc_Thread L)"
    and "\<And>k. int k < sint n \<Longrightarrow> check_aligned L (alloc_result pf env k) 0 = Inr ()"
    and "ContemptDrawPenalty m = cdp \<and> ContemptComplexity m = cc"
    and "\<And>k. int k < sint n \<Longrightarrow> alloc_result pf env k \<noteq> 0 \<Longrightarrow>
           map_option length (nnue_heap m (alloc_result pf env k)) = Some (STACK_SIZE L)"
proof -
  define m0 where "m0 = \<lparr> threads_ptr = calloc_ret env,
         workers = (if calloc_ret env = 0 then []
                    else replicate (nat (sint n)) (calloc_Thread L)),
         nnue_heap = h, ContemptDrawPenalty = cdp, ContemptComplexity = cc \<rparr>"
  from assms have run: "create_loop L pf env n 0 m0 = Inr m"
    by (simp add: createThreadPool_def m0_def)
  note w = create_loop_workers [OF run]
  have len0: "length (workers m0) = nat (sint n)"
  proof (cases "calloc_ret env = 0")
    case True
    with w have "\<not> int 0 < sint n"
      by (auto simp: m0_def)
    with True show ?thesis
      by (simp add: m0_def)
  next
    case False
    then show ?thesis
      by (simp add: m0_def)
  qed
  with w show len: "length (workers m) = nat (sint n)"
    by simp
  from w show "ContemptDrawPenalty m = cdp \<and> ContemptComplexity m = cc"
    by (simp add: m0_def)
  {
    fix k assume k: "k < length (workers m)"
    with len have kn: "int k < sint n" by simp
    then have ne: "calloc_ret env \<noteq> 0"
      using len0 by (auto simp: m0_def split: if_splits)
    from k len len0 have "k < length (workers m0)" by simp
    with w kn have "workers m ! k = created_worker L pf env n (threads_ptr m0) k (workers m0 ! k)"
      by simp
    moreover have "workers m0 ! k = calloc_Thread L"
      using ne kn by (simp add: m0_def)
    ultimately show "workers m ! k = created_worker L pf env n (calloc_ret env) k (calloc_Thread L)"
      by (simp add: m0_def)
  }
  {
    fix k assume "int k < sint n"
    with w show "check_aligned L (alloc_result pf env k) 0 = Inr ()"
      by simp
  }
  {
    fix k assume "int k < sint n" and "alloc_result pf env k \<noteq> 0"
    with create_loop_blocks [OF run, of k]
    show "map_option length (nnue_heap m (alloc_result pf env k)) = Some (STACK_SIZE L)"
      by simp
  }
qed

lemma createThreadPool_exit:
  assumes "calloc_ret env \<noteq> 0" and "int i < sint n" and "j < STACK_SIZE L"
    and "accumulation_addr L (alloc_result pf env i) j mod 64 \<noteq> 0"
  shows "createThreadPool L pf env h cdp cc n = Inl ExitFailure"
proof -
  from assms(3,4) have "check_aligned L (alloc_result pf env i) 0 \<noteq> Inr ()"
    by (auto simp: check_aligned_Inr_iff)
  with assms(1,2) show ?thesis
    unfolding createThreadPool_def
    by (intro create_loop_exit [where k = i]) simp_all
qed

lemma createThreadPool_total:
  assumes "calloc_ret env \<noteq> 0"
    and "\<And>k. int k < sint n \<Longrightarrow> check_aligned L (alloc_result pf env k) 0 = Inr ()"
  shows "\<exists>m. createThreadPool L pf env h cdp cc n = Inr m"
  unfolding createThreadPool_def
  by (rule create_loop_total) (use assms in simp_all)

text \<open>
  C2. When \<^verbatim>\<open>createThreadPool\<close> returns, the buffer of every accumulator frame of
  every worker is at a multiple of 64; when some frame of some worker is not, the
  process exits with \<^verbatim>\<open>EXIT_FAILURE\<close>; and that exit cannot happen when the pointers
  \<^verbatim>\<open>ethereal_alloc\<close> returns are multiples of 64 and the frame type keeps the
  alignment (its size and the offset of the buffer are multiples of 64).
\<close>

theorem createThreadPool_alignment:
  "(createThreadPool L pf env h cdp cc n = Inr m \<longrightarrow>
      length (workers m) = nat (sint n) \<and>
      (\<forall>i<length (workers m). \<forall>j<STACK_SIZE L.
         accumulation_addr L (raw_nnueStack (workers m ! i)) j mod 64 = 0)) \<and>
   (calloc_ret env \<noteq> 0 \<and> int i < sint n \<and> j < STACK_SIZE L \<and>
    accumulation_addr L (alloc_result pf env i) j mod 64 \<noteq> 0 \<longrightarrow>
      createThreadPool L pf env h cdp cc n = Inl ExitFailure) \<and>
   (calloc_ret env \<noteq> 0 \<and> (\<forall>k. int k < sint n \<longrightarrow> alloc_result pf env k mod 64 = 0) \<and>
    sizeof_NNUEStack L mod 64 = 0 \<and> offsetof_accumulation L mod 64 = 0 \<longrightarrow>
      (\<exists>m'. createThreadPool L pf env h cdp cc n = Inr m'))"
proof (intro conjI impI)
  assume run: "createThreadPool L pf env h cdp cc n = Inr m"
  note c = createThreadPool_Inr [OF run]
  from c(1) show "length (workers m) = nat (sint n)" .
  show "\<forall>i<length (workers m). \<forall>j<STACK_SIZE L.
         accumulation_addr L (raw_nnueStack (workers m ! i)) j mod 64 = 0"
  proof (intro allI impI)
    fix i j assume i: "i < length (workers m)" and j: "j < STACK_SIZE L"
    from i c(1) have "int i < sint n" by simp
    from c(3) [OF this] j have "accumulation_addr L (alloc_result pf env i) j mod 64 = 0"
      by (simp add: check_aligned_Inr_iff)
    with c(2) [OF i] show "accumulation_addr L (raw_nnueStack (workers m ! i)) j mod 64 = 0"
      by simp
  qed
next
  assume "calloc_ret env \<noteq> 0 \<and> int i < sint n \<and> j < STACK_SIZE L \<and>
    accumulation_addr L (alloc_result pf env i) j mod 64 \<noteq> 0"
  then show "createThreadPool L pf env h cdp cc n = Inl ExitFailure"
    using createThreadPool_exit [where env = env and i = i and j = j and n = n and L = L and pf = pf] by simp
next
  assume a: "calloc_ret env \<noteq> 0 \<and> (\<forall>k. int k < sint n \<longrightarrow> alloc_result pf env k mod 64 = 0) \<and>
    sizeof_NNUEStack L mod 64 = 0 \<and> offsetof_accumulation L mod 64 = 0"
  have "check_aligned L (alloc_result pf env k) 0 = Inr ()" if "int k < sint n" for k
    using a that by (simp add: check_aligned_Inr_iff accumulation_addr_aligned)
  with a show "\<exists>m'. createThreadPool L pf env h cdp cc n = Inr m'"
    using createThreadPool_total [where env = env and n = n and L = L and pf = pf] by simp
qed

theorem createThreadPool_alignment_witness:
  "(\<exists>m. createThreadPool small_layout POSIX aligned_libc no_heap 0 0 2 = Inr m \<and>
      length (workers m) = 2 \<and> raw_nnueStack (workers m ! 1) = 0x3000 \<and>
      accumulation_addr small_layout (raw_nnueStack (workers m ! 1)) 1 = 0x3040 \<and>
      accumulation_addr small_layout (raw_nnueStack (workers m ! 1)) 1 mod 64 = 0) \<and>
   accumulation_addr small_layout (alloc_result POSIX misaligned_libc 1) 0 mod 64 = 8 \<and>
   createThreadPool small_layout POSIX misaligned_libc no_heap 0 0 2 = Inl ExitFailure \<and>
   createThreadPool small_layout WIN32 misaligned_libc no_heap 0 0 2 = Inl ExitFailure"
proof -
  have good: "calloc_ret aligned_libc \<noteq> 0"
    "\<forall>k. int k < sint (2 :: cint) \<longrightarrow> alloc_result POSIX aligned_libc k mod 64 = 0"
    "sizeof_NNUEStack small_layout mod 64 = 0" "offsetof_accumulation small_layout mod 64 = 0"
    by (simp_all add: aligned_libc_def alloc_result_def small_layout_def)
  with createThreadPool_alignment [of small_layout POSIX aligned_libc no_heap 0 0 2,
      THEN conjunct2, THEN conjunct2]
  obtain m where run: "createThreadPool small_layout POSIX aligned_libc no_heap 0 0 2 = Inr m"
    by blast
  have two: "\<forall>i<2. \<forall>j<STACK_SIZE small_layout. P i j \<Longrightarrow> P 1 1" for P :: "nat \<Rightarrow> nat \<Rightarrow> bool"
    by (simp add: small_layout_def)
  from createThreadPool_alignment [of small_layout POSIX aligned_libc no_heap 0 0 2 m] run
  have len: "length (workers m) = 2"
    and al: "accumulation_addr small_layout (raw_nnueStack (workers m ! 1)) 1 mod 64 = 0"
    using two [of "\<lambda>i j. accumulation_addr small_layout (raw_nnueStack (workers m ! i)) j mod 64 = 0"]
    by simp_all
  have raw: "createThreadPool small_layout POSIX aligned_libc no_heap 0 0 2 = Inr m \<Longrightarrow>
      raw_nnueStack (workers m ! 1) = 0x3000"
    by (auto simp: createThreadPool_def create_loop.simps create_body_def check_aligned.simps
        accumulation_addr_def ethereal_alloc_def small_layout_def aligned_libc_def
        calloc_Thread_def Let_def)
  have addr: "accumulation_addr small_layout 0x3000 1 = 0x3040"
    by (simp add: accumulation_addr_def small_layout_def)
  have bad: "calloc_ret misaligned_libc \<noteq> 0" "int 1 < sint (2 :: cint)"
    "0 < STACK_SIZE small_layout"
    "accumulation_addr small_layout (alloc_result POSIX misaligned_libc 1) 0 mod 64 = 8"
    by (simp_all add: misaligned_libc_def alloc_result_def small_layout_def accumulation_addr_def)
  with createThreadPool_alignment [of small_layout POSIX misaligned_libc no_heap 0 0 2 _ 1 0]
  have "createThreadPool small_layout POSIX misaligned_libc no_heap 0 0 2 = Inl ExitFailure"
    by simp
  moreover
  have "calloc_ret misaligned_libc \<noteq> 0" "int 1 < sint (2 :: cint)"
    "0 < STACK_SIZE small_layout"
    "accumulation_addr small_layout (alloc_result WIN32 misaligned_libc 1) 0 mod 64 \<noteq> 0"
    by (simp_all add: misaligned_libc_def alloc_result_def small_layout_def accumulation_addr_def)
  with createThreadPool_alignment [of small_layout WIN32 misaligned_libc no_heap 0 0 2 _ 1 0]
  have "createThreadPool small_layout WIN32 misaligned_libc no_heap 0 0 2 = Inl ExitFailure"
    by simp
  ultimately show ?thesis
    using run len al raw [OF run] addr bad(4) by simp
qed

lemma createThreadPool_pool_ok:
  assumes run: "createThreadPool L pf env h cdp cc n = Inr m" and n: "1 \<le> sint n"
    and ok: "\<And>k. int k < sint n \<Longrightarrow> alloc_result pf env k \<noteq> 0"
  shows "pool_ok L m" and "pool_nthreads m = Inr n"
proof -
  note c = createThreadPool_Inr [OF run]
  from c(1) n have len: "0 < length (workers m)" by simp
  then obtain t ts where ws: "workers m = t # ts"
    by (cases "workers m") auto
  from c(2) [OF len] ws have t: "nthreads t = n"
    by simp
  with ws show "pool_nthreads m = Inr n"
    by (simp add: pool_nthreads_def)
  have "map_option length (nnue_heap m (raw_nnueStack (workers m ! k))) = Some (STACK_SIZE L)"
    if "k < length (workers m)" for k
  proof -
    from that c(1) have kn: "int k < sint n" by simp
    from c(5) [OF kn ok [OF kn]] c(2) [OF that] show ?thesis
      by simp
  qed
  then have "list_all (\<lambda>t. map_option length (nnue_heap m (raw_nnueStack t)) = Some (STACK_SIZE L))
       (workers m)"
    by (simp add: list_all_length)
  moreover from c(1) n t ws have "sint (nthreads t) = int (length (workers m))"
    by simp
  ultimately show "pool_ok L m"
    using ws by (simp add: pool_ok_def)
qed

text \<open>
  C7. After \<^verbatim>\<open>createThreadPool\<close> each of the four access pointers of a worker is the
  start of its backing array plus \<^verbatim>\<open>STACK_OFFSET\<close>. So, when the padding is at least
  one slot and lies inside the array (\<^verbatim>\<open>1 <= STACK_OFFSET <= STACK_SIZE\<close>), index -1
  from an access pointer is an element of the backing array and is not the element
  at index 0; for the accumulator stack this needs the array to exist, that is the
  allocation for the worker to have succeeded.
\<close>

theorem createThreadPool_access_pointers:
  "createThreadPool L pf env h cdp cc n = Inr m \<and> i < length (workers m) \<longrightarrow>
     evalStack (workers m ! i) = ptr_add (Elem (EvalArr i) 0) (int (STACK_OFFSET L)) \<and>
     moveStack (workers m ! i) = ptr_add (Elem (MoveArr i) 0) (int (STACK_OFFSET L)) \<and>
     pieceStack (workers m ! i) = ptr_add (Elem (PieceArr i) 0) (int (STACK_OFFSET L)) \<and>
     nnueStack (workers m ! i) =
       ptr_add (Elem (NNUEArr (raw_nnueStack (workers m ! i))) 0) (int (STACK_OFFSET L)) \<and>
     (1 \<le> STACK_OFFSET L \<and> STACK_OFFSET L \<le> STACK_SIZE L \<longrightarrow>
        (\<forall>p \<in> {evalStack (workers m ! i), moveStack (workers m ! i), pieceStack (workers m ! i)}.
           valid_elem m (ptr_add p (- 1)) \<and> ptr_add p (- 1) \<noteq> ptr_add p 0) \<and>
        (alloc_result pf env i \<noteq> 0 \<longrightarrow>
           valid_elem m (ptr_add (nnueStack (workers m ! i)) (- 1)) \<and>
           ptr_add (nnueStack (workers m ! i)) (- 1) \<noteq> ptr_add (nnueStack (workers m ! i)) 0))"
proof (intro impI)
  assume a: "createThreadPool L pf env h cdp cc n = Inr m \<and> i < length (workers m)"
  then have run: "createThreadPool L pf env h cdp cc n = Inr m" and i: "i < length (workers m)"
    by simp_all
  note c = createThreadPool_Inr [OF run]
  from i c(1) have "int i < sint n" by simp
  note blk = c(5) [OF this]
  note w = c(2) [OF i]
  have p: "evalStack (workers m ! i) = Elem (EvalArr i) (int (STACK_OFFSET L))"
    "moveStack (workers m ! i) = Elem (MoveArr i) (int (STACK_OFFSET L))"
    "pieceStack (workers m ! i) = Elem (PieceArr i) (int (STACK_OFFSET L))"
    "nnueStack (workers m ! i) = Elem (NNUEArr (alloc_result pf env i)) (int (STACK_OFFSET L))"
    "raw_nnueStack (workers m ! i) = alloc_result pf env i"
    by (simp_all add: w created_worker_def)
  have len: "length (raw_evalStack (workers m ! i)) = STACK_SIZE L"
    "length (raw_moveStack (workers m ! i)) = STACK_SIZE L"
    "length (raw_pieceStack (workers m ! i)) = STACK_SIZE L"
    by (simp_all add: w created_worker_def calloc_Thread_def)
  have "valid_elem m (ptr_add q (- 1)) \<and> ptr_add q (- 1) \<noteq> ptr_add q 0"
    if "1 \<le> STACK_OFFSET L" "STACK_OFFSET L \<le> STACK_SIZE L"
      "q \<in> {evalStack (workers m ! i), moveStack (workers m ! i), pieceStack (workers m ! i)}" for q
    using that i len by (auto simp: p)
  moreover have "valid_elem m (ptr_add (nnueStack (workers m ! i)) (- 1)) \<and>
      ptr_add (nnueStack (workers m ! i)) (- 1) \<noteq> ptr_add (nnueStack (workers m ! i)) 0"
    if "1 \<le> STACK_OFFSET L" "STACK_OFFSET L \<le> STACK_SIZE L" "alloc_result pf env i \<noteq> 0"
    using that blk by (auto simp: p)
  ultimately show "evalStack (workers m ! i) = ptr_add (Elem (EvalArr i) 0) (int (STACK_OFFSET L)) \<and>
     moveStack (workers m ! i) = ptr_add (Elem (MoveArr i) 0) (int (STACK_OFFSET L)) \<and>
     pieceStack (workers m ! i) = ptr_add (Elem (PieceArr i) 0) (int (STACK_OFFSET L)) \<and>
     nnueStack (workers m ! i) =
       ptr_add (Elem (NNUEArr (raw_nnueStack (workers m ! i))) 0) (int (STACK_OFFSET L)) \<and>
     (1 \<le> STACK_OFFSET L \<and> STACK_OFFSET L \<le> STACK_SIZE L \<longrightarrow>
        (\<forall>p \<in> {evalStack (workers m ! i), moveStack (workers m ! i), pieceStack (workers m ! i)}.
           valid_elem m (ptr_add p (- 1)) \<and> ptr_add p (- 1) \<noteq> ptr_add p 0) \<and>
        (alloc_result pf env i \<noteq> 0 \<longrightarrow>
           valid_elem m (ptr_add (nnueStack (workers m ! i)) (- 1)) \<and>
           ptr_add (nnueStack (workers m ! i)) (- 1) \<noteq> ptr_add (nnueStack (workers m ! i)) 0))"
    using p by (intro conjI impI ballI) simp_all
qed

theorem createThreadPool_access_pointers_witness:
  "\<exists>m. createThreadPool small_layout POSIX aligned_libc no_heap 0 0 2 = Inr m \<and>
     length (workers m) = 2 \<and>
     evalStack (workers m ! 1) = Elem (EvalArr 1) 1 \<and>
     nnueStack (workers m ! 1) = Elem (NNUEArr 0x3000) 1 \<and>
     ptr_add (evalStack (workers m ! 1)) (- 1) = Elem (EvalArr 1) 0 \<and>
     valid_elem m (ptr_add (evalStack (workers m ! 1)) (- 1)) \<and>
     valid_elem m (ptr_add (moveStack (workers m ! 1)) (- 1)) \<and>
     valid_elem m (ptr_add (pieceStack (workers m ! 1)) (- 1)) \<and>
     valid_elem m (ptr_add (nnueStack (workers m ! 1)) (- 1)) \<and>
     ptr_add (nnueStack (workers m ! 1)) (- 1) \<noteq> ptr_add (nnueStack (workers m ! 1)) 0"
proof -
  have good: "calloc_ret aligned_libc \<noteq> 0"
    "\<And>k. int k < sint (2 :: cint) \<Longrightarrow> check_aligned small_layout (alloc_result POSIX aligned_libc k) 0 = Inr ()"
    by (simp_all add: aligned_libc_def alloc_result_def small_layout_def check_aligned_Inr_iff
        accumulation_addr_aligned)
  from createThreadPool_total [where env = aligned_libc and n = 2 and L = small_layout and pf = POSIX
      and h = no_heap and cdp = 0 and cc = 0, OF good]
  obtain m where run: "createThreadPool small_layout POSIX aligned_libc no_heap 0 0 2 = Inr m"
    by blast
  from createThreadPool_Inr(1) [OF run] have len: "length (workers m) = 2" "1 < length (workers m)"
    by simp_all
  have k: "1 \<le> STACK_OFFSET small_layout" "STACK_OFFSET small_layout \<le> STACK_SIZE small_layout"
    "int (STACK_OFFSET small_layout) = 1"
    "alloc_result POSIX aligned_libc 1 = 0x3000"
    by (simp_all add: small_layout_def aligned_libc_def alloc_result_def)
  from createThreadPool_access_pointers [of small_layout POSIX aligned_libc no_heap 0 0 2 m 1] run len k
    createThreadPool_Inr(2) [OF run len(2)]
  show ?thesis
    by (intro exI [of _ m]) (simp add: created_worker_def)
qed

text \<open>
  C10. After \<^verbatim>\<open>newSearchThreadPool\<close> every worker holds the one contempt value
  computed from the given position, the given limits pointer and the given info
  pointer, and its board is the given board with only \<^verbatim>\<open>st\<close> replaced by the
  worker's own \<^verbatim>\<open>nnueStack\<close>. On a pool made by \<^verbatim>\<open>createThreadPool\<close> that pointer
  is \<^verbatim>\<open>STACK_OFFSET\<close> frames into the worker's own allocation, so two workers whose
  allocations are different blocks have different \<^verbatim>\<open>st\<close>.
\<close>

theorem newSearchThreadPool_shared_and_private:
  "(newSearchThreadPool L b lim nfo m = Inr m' \<and> pool_nthreads m = Inr n \<and> int i < sint n \<longrightarrow>
      contempt (workers m' ! i) =
        search_contempt (ContemptDrawPenalty m) (ContemptComplexity m) b \<and>
      limits (workers m' ! i) = lim \<and> info (workers m' ! i) = nfo \<and>
      board (workers m' ! i) = b \<lparr> st := nnueStack (workers m' ! i) \<rparr> \<and>
      nnueStack (workers m' ! i) = nnueStack (workers m ! i)) \<and>
   (createThreadPool L pf env h cdp cc n = Inr m \<and> newSearchThreadPool L b lim nfo m = Inr m' \<and>
    int i < sint n \<and> int j < sint n \<and> alloc_result pf env i \<noteq> alloc_result pf env j \<longrightarrow>
      st (board (workers m' ! i)) = Elem (NNUEArr (alloc_result pf env i)) (int (STACK_OFFSET L)) \<and>
      st (board (workers m' ! j)) = Elem (NNUEArr (alloc_result pf env j)) (int (STACK_OFFSET L)) \<and>
      st (board (workers m' ! i)) \<noteq> st (board (workers m' ! j)))"
proof (intro conjI impI)
  assume a: "newSearchThreadPool L b lim nfo m = Inr m' \<and> pool_nthreads m = Inr n \<and> int i < sint n"
  then have run: "newSearchThreadPool L b lim nfo m = Inr m'" and n: "pool_nthreads m = Inr n"
    and i: "int i < sint n" by simp_all
  note w = newSearchThreadPool_workers(3) [OF run n i]
  show "contempt (workers m' ! i) =
        search_contempt (ContemptDrawPenalty m) (ContemptComplexity m) b"
    "limits (workers m' ! i) = lim" "info (workers m' ! i) = nfo"
    "board (workers m' ! i) = b \<lparr> st := nnueStack (workers m' ! i) \<rparr>"
    "nnueStack (workers m' ! i) = nnueStack (workers m ! i)"
    by (simp_all add: w newSearch_worker_def)
next
  assume a: "createThreadPool L pf env h cdp cc n = Inr m \<and> newSearchThreadPool L b lim nfo m = Inr m' \<and>
    int i < sint n \<and> int j < sint n \<and> alloc_result pf env i \<noteq> alloc_result pf env j"
  then have mk: "createThreadPool L pf env h cdp cc n = Inr m"
    and run: "newSearchThreadPool L b lim nfo m = Inr m'"
    and i: "int i < sint n" and j: "int j < sint n"
    and ne: "alloc_result pf env i \<noteq> alloc_result pf env j" by simp_all
  note c = createThreadPool_Inr [OF mk]
  from i j c(1) have il: "i < length (workers m)" and jl: "j < length (workers m)"
    by simp_all
  from il have pos: "0 < length (workers m)" by auto
  from c(2) [OF pos] pos have n: "pool_nthreads m = Inr n"
    by (cases "workers m") (simp_all add: pool_nthreads_def)
  have "st (board (workers m' ! k)) = Elem (NNUEArr (alloc_result pf env k)) (int (STACK_OFFSET L))"
    if "int k < sint n" for k
  proof -
    from that c(1) have "k < length (workers m)" by simp
    from newSearchThreadPool_workers(3) [OF run n that] c(2) [OF this]
    show ?thesis
      by (simp add: newSearch_worker_def created_worker_def)
  qed
  from this [OF i] this [OF j] ne
  show "st (board (workers m' ! i)) = Elem (NNUEArr (alloc_result pf env i)) (int (STACK_OFFSET L))"
    "st (board (workers m' ! j)) = Elem (NNUEArr (alloc_result pf env j)) (int (STACK_OFFSET L))"
    "st (board (workers m' ! i)) \<noteq> st (board (workers m' ! j))"
    by simp_all
qed

theorem newSearchThreadPool_shared_and_private_witness:
  "\<exists>m m'. createThreadPool small_layout POSIX aligned_libc no_heap 20 5 2 = Inr m \<and>
     newSearchThreadPool small_layout black_board 1 2 m = Inr m' \<and>
     contempt (workers m' ! 0) = contempt (workers m' ! 1) \<and>
     limits (workers m' ! 0) = 1 \<and> limits (workers m' ! 1) = 1 \<and>
     info (workers m' ! 0) = 2 \<and> info (workers m' ! 1) = 2 \<and>
     board (workers m' ! 0) = black_board \<lparr> st := Elem (NNUEArr 0x2000) 1 \<rparr> \<and>
     board (workers m' ! 1) = black_board \<lparr> st := Elem (NNUEArr 0x3000) 1 \<rparr> \<and>
     st (board (workers m' ! 0)) \<noteq> st (board (workers m' ! 1))"
proof -
  have good: "calloc_ret aligned_libc \<noteq> 0"
    "\<And>k. int k < sint (2 :: cint) \<Longrightarrow> check_aligned small_layout (alloc_result POSIX aligned_libc k) 0 = Inr ()"
    by (simp_all add: aligned_libc_def alloc_result_def small_layout_def check_aligned_Inr_iff
        accumulation_addr_aligned)
  from createThreadPool_total [where env = aligned_libc and n = 2 and L = small_layout and pf = POSIX
      and h = no_heap and cdp = 20 and cc = 5, OF good]
  obtain m where mk: "createThreadPool small_layout POSIX aligned_libc no_heap 20 5 2 = Inr m"
    by blast
  have ok: "pool_ok small_layout m" and n: "pool_nthreads m = Inr 2"
    by (rule createThreadPool_pool_ok [OF mk]; simp add: aligned_libc_def alloc_result_def)+
  from pool_ok_nthreads [OF ok] n have len: "sint (2 :: cint) \<le> int (length (workers m))"
    by simp
  from newSearch_loop_total [OF n len, of small_layout black_board 1 2 _ 0]
  obtain m' where run: "newSearchThreadPool small_layout black_board 1 2 m = Inr m'"
    using pool_ok_blocks [OF ok] by (auto simp: newSearchThreadPool_def)
  have k: "int 0 < sint (2 :: cint)" "int 1 < sint (2 :: cint)"
    "alloc_result POSIX aligned_libc 0 = 0x2000" "alloc_result POSIX aligned_libc 1 = 0x3000"
    "int (STACK_OFFSET small_layout) = 1"
    by (simp_all add: aligned_libc_def alloc_result_def small_layout_def)
  note t = newSearchThreadPool_shared_and_private
    [of small_layout black_board 1 2 m m' 2 _ POSIX aligned_libc no_heap 20 5]
  from t [of 0 1] t [of 1 0] mk run n k
  show ?thesis
    by (intro exI [of _ m] exI [of _ m']) simp
qed

subsection \<open>The mapped file reader\<close>

lemma word64_of_nat_eq_0:
  assumes "n < 2 ^ 64"
  shows "(of_nat n :: 64 word) = 0 \<longleftrightarrow> n = 0"
proof -
  have "unat (of_nat n :: 64 word) = n"
    using assms by (simp add: unat_of_nat)
  then show ?thesis
    by (metis unat_eq_zero)
qed

lemma views_update [simp]:
  "views (s \<lparr> regions := rs \<rparr>) = map_of rs"
  "views (s \<lparr> handles := hs \<rparr>) = views s"
  by (simp_all add: views_def)

lemma map_file_POSIX:
  assumes "files s fd = Some bs" and "length bs < 2 ^ 64"
  shows "map_file POSIX k s fd =
     (if can_map POSIX k bs
      then (the (mmap_place k), of_nat (length bs),
            s \<lparr> regions := (the (mmap_place k), bs) # regions s \<rparr>)
      else (0, of_nat (length bs), s))"
proof -
  have u: "unat (of_nat (length bs) :: 64 word) = length bs"
    using assms(2) by (simp add: unat_of_nat)
  have z: "(of_nat (length bs) :: 64 word) = 0 \<longleftrightarrow> bs = []"
    using word64_of_nat_eq_0 [OF assms(2)] by simp
  show ?thesis
    using assms(1)
    by (auto simp: map_file_def file_size_def fstat_size_def mmap_def can_map_def Let_def u z
        split: option.splits)
qed

lemma map_file_WIN32:
  assumes "files s fd = Some bs"
  shows "map_file WIN32 k s fd =
     (if bs \<noteq> [] \<and> (\<exists>h. mapping_handle k = Some h \<and> h \<noteq> 0)
      then (if can_map WIN32 k bs
            then (the (view_place k), the (mapping_handle k),
                  s \<lparr> handles := (handles s)(the (mapping_handle k) \<mapsto> fd),
                      regions := (the (view_place k), bs) # regions s \<rparr>)
            else (0, the (mapping_handle k),
                  s \<lparr> handles := (handles s)(the (mapping_handle k) \<mapsto> fd) \<rparr>))
      else (0, 0, s))"
  using assms
  by (auto simp: map_file_def GetFileSize_def CreateFileMapping_def MapViewOfFile_def
      can_map_def split: option.splits prod.splits)









text \<open>
  C9, as the claim states it, fails in the Windows build: for an open file of three
  bytes the call succeeds, and what it stores in \<^verbatim>\<open>*map\<close> is the handle of the file
  mapping, not the size 3.
\<close>

theorem map_file_reports_handle_on_windows:
  "files one_file 3 = Some [1, 2, 3] \<and>
   fst (map_file WIN32 willing_kernel one_file 3) = 0x7000 \<and>
   fst (snd (map_file WIN32 willing_kernel one_file 3)) = 0x100 \<and>
   fst (snd (map_file WIN32 willing_kernel one_file 3)) \<noteq> of_nat (length [1, 2, 3 :: byte])"
  by (simp add: map_file_def GetFileSize_def CreateFileMapping_def MapViewOfFile_def
      one_file_def willing_kernel_def)

text \<open>
  C9, amended. For an open file with bytes \<open>bs\<close>: \<^verbatim>\<open>map_file\<close> returns a non-null
  pointer exactly when the mapping can be established, and then the bytes of the
  file are what can be read at that pointer; otherwise (an empty file, the system
  refusing) it returns \<^verbatim>\<open>NULL\<close>. In the build for systems other than Windows the
  value stored in \<^verbatim>\<open>*map\<close> is the size of the file; in the Windows build it is the
  handle of the file mapping, or \<^verbatim>\<open>NULL\<close>.
\<close>

theorem map_file_result:
  "files s fd = Some bs \<and> length bs < 2 ^ 64 \<and> map_file pf k s fd = (data, m, s') \<longrightarrow>
     (data \<noteq> 0 \<longleftrightarrow> can_map pf k bs) \<and>
     (data \<noteq> 0 \<longrightarrow> views s' data = Some bs) \<and>
     (data = 0 \<longrightarrow> views s' = views s) \<and>
     (pf = POSIX \<longrightarrow> m = of_nat (length bs) \<and> unat m = length bs) \<and>
     (pf = WIN32 \<longrightarrow> m = 0 \<or> mapping_handle k = Some m)"
proof
  assume a: "files s fd = Some bs \<and> length bs < 2 ^ 64 \<and> map_file pf k s fd = (data, m, s')"
  then have f: "files s fd = Some bs" and l: "length bs < 2 ^ 64" by simp_all
  have u: "unat (of_nat (length bs) :: 64 word) = length bs"
    using l by (simp add: unat_of_nat)
  show "(data \<noteq> 0 \<longleftrightarrow> can_map pf k bs) \<and>
     (data \<noteq> 0 \<longrightarrow> views s' data = Some bs) \<and>
     (data = 0 \<longrightarrow> views s' = views s) \<and>
     (pf = POSIX \<longrightarrow> m = of_nat (length bs) \<and> unat m = length bs) \<and>
     (pf = WIN32 \<longrightarrow> m = 0 \<or> mapping_handle k = Some m)"
  proof (cases pf)
    case POSIX
    with a map_file_POSIX [OF f l, of k] u show ?thesis
      by (auto simp: can_map_def split: if_splits option.splits)
  next
    case WIN32
    with a map_file_WIN32 [OF f, of k] show ?thesis
      by (auto simp: can_map_def split: if_splits option.splits)
  qed
qed

theorem map_file_result_witness:
  "files one_file 3 = Some [1, 2, 3] \<and>
   (\<exists>s'. map_file POSIX willing_kernel one_file 3 = (0x7000, 3, s') \<and>
      views s' 0x7000 = Some [1, 2, 3]) \<and>
   (\<exists>s'. map_file WIN32 willing_kernel one_file 3 = (0x7000, 0x100, s') \<and>
      views s' 0x7000 = Some [1, 2, 3]) \<and>
   fst (map_file POSIX refusing_kernel one_file 3) = 0 \<and>
   fst (map_file WIN32 refusing_kernel one_file 3) = 0"
proof -
  have f: "files one_file 3 = Some [1, 2, 3]" "length [1, 2, 3 :: byte] < 2 ^ 64"
    by (simp_all add: one_file_def)
  have c: "can_map WIN32 willing_kernel [1, 2, 3]" "can_map POSIX willing_kernel [1, 2, 3]"
    "\<not> can_map WIN32 refusing_kernel [1, 2, 3]" "\<not> can_map POSIX refusing_kernel [1, 2, 3]"
    by (simp_all add: can_map_def willing_kernel_def refusing_kernel_def MAP_FAILED_def)
  have k: "mmap_place willing_kernel = Some 0x7000" "view_place willing_kernel = Some 0x7000"
    "mapping_handle willing_kernel = Some 0x100"
    by (simp_all add: willing_kernel_def)
  obtain sp where p: "map_file POSIX willing_kernel one_file 3 = (0x7000, 3, sp)"
    by (simp add: map_file_POSIX [OF f] c k)
  obtain sw where w: "map_file WIN32 willing_kernel one_file 3 = (0x7000, 0x100, sw)"
    by (simp add: map_file_WIN32 [OF f(1)] c k)
  obtain d1 m1 s1 where rp: "map_file POSIX refusing_kernel one_file 3 = (d1, m1, s1)"
    by (rule prod_cases3)
  obtain d2 m2 s2 where rw: "map_file WIN32 refusing_kernel one_file 3 = (d2, m2, s2)"
    by (rule prod_cases3)
  note t = map_file_result [of one_file 3 "[1, 2, 3]"]
  from t [of POSIX willing_kernel "0x7000" 3 sp] f p
  have vp: "views sp 0x7000 = Some [1, 2, 3]"
    by simp
  from t [of WIN32 willing_kernel "0x7000" "0x100" sw] f w
  have vw: "views sw 0x7000 = Some [1, 2, 3]"
    by simp
  from t [of POSIX refusing_kernel d1 m1 s1] f c rp have "d1 = 0"
    by simp
  moreover from t [of WIN32 refusing_kernel d2 m2 s2] f c rw have "d2 = 0"
    by simp
  ultimately show ?thesis
    using f(1) p vp w vw rp rw by simp
qed

end
